theory Spec2Isabelle
  imports Main
begin

section \<open>Python strings\<close>

text \<open>
  Strings are lists of characters. \<open>lower\<close> is \<^verbatim>\<open>str.lower\<close> on the ASCII range (the letters
  \<open>A\<close> to \<open>Z\<close> move down by 32, every other character stays); the configured keywords
  and the inputs of the scenarios are ASCII. \<open>py_in sub s\<close> is Python's \<^verbatim>\<open>sub in s\<close>
  on strings: \<open>sub\<close> occurs in \<open>s\<close> as a contiguous block, and the empty string occurs in
  every string.
\<close>

definition lower_char :: "char \<Rightarrow> char" where
  "lower_char c =
     (let n = (of_char c :: nat) in if 65 \<le> n \<and> n \<le> 90 then char_of (n + 32) else c)"

definition lower :: "string \<Rightarrow> string" where
  "lower s = map lower_char s"

fun startswith :: "string \<Rightarrow> string \<Rightarrow> bool" where
  "startswith s [] = True"
| "startswith [] (p # ps) = False"
| "startswith (c # cs) (p # ps) = (c = p \<and> startswith cs ps)"

fun py_in :: "string \<Rightarrow> string \<Rightarrow> bool" where
  "py_in sub [] = (sub = [])"
| "py_in sub (c # cs) = (startswith (c # cs) sub \<or> py_in sub cs)"

text \<open>\<open>str_int\<close> is \<^verbatim>\<open>str(i)\<close> for an integer: decimal digits, a minus sign when negative.\<close>

definition digit_char :: "nat \<Rightarrow> char" where
  "digit_char d = char_of (48 + d)"

function str_nat :: "nat \<Rightarrow> string" where
  "str_nat n = (if n < 10 then [digit_char n] else str_nat (n div 10) @ [digit_char (n mod 10)])"
  by pat_completeness auto
termination
  by (relation "measure (\<lambda>n. n)") auto

definition str_int :: "int \<Rightarrow> string" where
  "str_int i = (if i < 0 then CHR ''-'' # str_nat (nat (- i)) else str_nat (nat i))"

text \<open>\<open>join sep parts\<close> is \<^verbatim>\<open>sep.join(parts)\<close>.\<close>

fun join :: "string \<Rightarrow> string list \<Rightarrow> string" where
  "join sep [] = []"
| "join sep [x] = x"
| "join sep (x # y # ys) = x @ sep @ join sep (y # ys)"

section \<open>Configuration (config.py)\<close>

record score_weights =
  industry_match :: int
  title_match :: int
  department_match :: int
  company_size :: int
  speaker_bonus_weight :: int

record icp_criteria =
  target_industries :: "string list"
  target_titles :: "string list"
  target_departments :: "string list"
  min_company_size :: int
  preferred_company_size :: int
  target_geography :: "string list"
  weights :: score_weights

definition ICP_CRITERIA :: icp_criteria where
  "ICP_CRITERIA = \<lparr>
     target_industries =
       [''Manufacturing'', ''Industrial Equipment'', ''Medical Devices'',
        ''Healthcare Technology'', ''Field Service'', ''HVAC'', ''Utilities'',
        ''Telecommunications'', ''Industrial Automation'', ''Building Automation'',
        ''Elevator/Escalator'', ''Energy'', ''Oil & Gas'', ''Aerospace'', ''Defense''],
     target_titles =
       [''VP'', ''Vice President'', ''SVP'', ''Senior Vice President'', ''EVP'',
        ''Executive Vice President'', ''Director'', ''Senior Director'', ''Chief'',
        ''C-Level'', ''COO'', ''CTO'', ''CIO'', ''Head of'', ''General Manager'',
        ''President''],
     target_departments =
       [''Field Service'', ''Service'', ''Customer Service'', ''Customer Support'',
        ''Technical Support'', ''Operations'', ''Service Operations'', ''Aftermarket'',
        ''Service Delivery'', ''Digital'', ''Technology'', ''IT'', ''Innovation''],
     min_company_size = 500,
     preferred_company_size = 1000,
     target_geography = [''North America'', ''USA'', ''United States'', ''Canada''],
     weights = \<lparr> industry_match = 30, title_match = 25, department_match = 20,
                 company_size = 15, speaker_bonus_weight = 10 \<rparr> \<rparr>"

record icp_thresholds =
  high :: int
  medium :: int
  low :: int

definition ICP_THRESHOLDS :: icp_thresholds where
  "ICP_THRESHOLDS = \<lparr> high = 75, medium = 50, low = 0 \<rparr>"

section \<open>Score records (models/schemas.py)\<close>

datatype py_error = ValidationError | OracleError | ValueError | HandlerError

record ICPResult =
  company_name :: string
  score :: int
  fit_level :: string
  reasoning :: string
  industry_score :: int
  title_score :: int
  department_score :: int
  size_score :: int
  speaker_bonus :: int
  validated_by :: string
  disputed :: bool
  dispute_reason :: string
  final_score :: "int option"

text \<open>
  The constructor of the pydantic model checks \<^verbatim>\<open>score: int = Field(ge=0, le=100)\<close> and raises
  a validation error otherwise. Assigning to a field of an existing object is not checked
  (the model does not set \<^verbatim>\<open>validate_assignment\<close>), so field updates are plain record updates.
\<close>

definition ICPResult_init :: "ICPResult \<Rightarrow> py_error + ICPResult" where
  "ICPResult_init r = (if 0 \<le> score r \<and> score r \<le> 100 then Inr r else Inl ValidationError)"

text \<open>
  The detail dictionary of one organization, as \<^verbatim>\<open>get_company_details\<close> builds it and the
  validator reads it. A key read with \<^verbatim>\<open>.get\<close> is an option: \<open>None\<close> when the key is
  missing (for \<open>ci_size\<close> and \<open>ci_employee_count\<close> also when the stored value is \<^verbatim>\<open>None\<close>).
\<close>

record contact =
  contact_name :: "string option"
  contact_title :: "string option"

record company_info =
  ci_name :: "string option"
  ci_industry :: "string option"
  ci_size :: "int option"
  ci_employee_count :: "int option"
  ci_speakers :: "contact list option"
  ci_attendees :: "contact list option"

definition get_title :: "contact \<Rightarrow> string" where
  "get_title sp = (case contact_title sp of None \<Rightarrow> [] | Some t \<Rightarrow> t)"

definition get_industry :: "company_info \<Rightarrow> string" where
  "get_industry info = (case ci_industry info of None \<Rightarrow> [] | Some i \<Rightarrow> i)"

definition get_speakers :: "company_info \<Rightarrow> contact list" where
  "get_speakers info = (case ci_speakers info of None \<Rightarrow> [] | Some sps \<Rightarrow> sps)"

definition get_attendees :: "company_info \<Rightarrow> contact list" where
  "get_attendees info = (case ci_attendees info of None \<Rightarrow> [] | Some ats \<Rightarrow> ats)"

section \<open>Rule-based scoring (agents/icp\_validator\_agent.py)\<close>

text \<open>
  Each loop of \<^verbatim>\<open>_rule_based_validation\<close> carries the component score and the list of
  reasoning parts. The industry loop stops at the first target that matches in either
  direction; the title and department loops stop the inner search at the first keyword and
  the outer loop once the component is positive.
\<close>

fun industry_loop :: "string \<Rightarrow> string list \<Rightarrow> int \<times> string list \<Rightarrow> int \<times> string list" where
  "industry_loop industry [] acc = acc"
| "industry_loop industry (target_industry # rest) (sc, parts) =
     (if py_in (lower target_industry) industry \<or> py_in industry (lower target_industry)
      then (industry_match (weights ICP_CRITERIA),
            parts @ [''Industry match: '' @ target_industry])
      else industry_loop industry rest (sc, parts))"

fun title_loop :: "contact list \<Rightarrow> int \<times> string list \<Rightarrow> int \<times> string list" where
  "title_loop [] acc = acc"
| "title_loop (speaker # rest) (sc, parts) =
     (let title = get_title speaker;
          acc' = (case find (\<lambda>target_title. py_in (lower target_title) (lower title))
                         (target_titles ICP_CRITERIA) of
                    None \<Rightarrow> (sc, parts)
                  | Some target_title \<Rightarrow>
                      (title_match (weights ICP_CRITERIA), parts @ [''Title match: '' @ title]))
      in if fst acc' > 0 then acc' else title_loop rest acc')"

fun department_loop :: "contact list \<Rightarrow> int \<times> string list \<Rightarrow> int \<times> string list" where
  "department_loop [] acc = acc"
| "department_loop (speaker # rest) (sc, parts) =
     (let title = get_title speaker;
          acc' = (case find (\<lambda>dept. py_in (lower dept) (lower title))
                         (target_departments ICP_CRITERIA) of
                    None \<Rightarrow> (sc, parts)
                  | Some dept \<Rightarrow>
                      (department_match (weights ICP_CRITERIA),
                       parts @ [''Department match: '' @ dept]))
      in if fst acc' > 0 then acc' else department_loop rest acc')"

text \<open>
  \<^verbatim>\<open>company_info.get("size") or company_info.get("employee_count")\<close>: the first value unless
  it is missing or zero.
\<close>

definition get_company_size :: "company_info \<Rightarrow> int option" where
  "get_company_size info =
     (case ci_size info of
        None \<Rightarrow> ci_employee_count info
      | Some s \<Rightarrow> if s \<noteq> 0 then Some s else ci_employee_count info)"

definition size_step :: "int option \<Rightarrow> string list \<Rightarrow> int \<times> string list" where
  "size_step csize parts =
     (case csize of
        None \<Rightarrow> (0, parts)
      | Some n \<Rightarrow>
          if n = 0 then (0, parts)
          else if n \<ge> preferred_company_size ICP_CRITERIA
          then (company_size (weights ICP_CRITERIA),
                parts @ [''Enterprise size: '' @ str_int n @ ''+ employees''])
          else if n \<ge> min_company_size ICP_CRITERIA
          then (company_size (weights ICP_CRITERIA) div 2,
                parts @ [''Mid-market size: '' @ str_int n @ '' employees''])
          else (0, parts))"

definition speaker_step :: "contact list \<Rightarrow> string list \<Rightarrow> int \<times> string list" where
  "speaker_step speakers parts =
     (if speakers \<noteq> []
      then (speaker_bonus_weight (weights ICP_CRITERIA),
            parts @ [''Has '' @ str_int (int (length speakers)) @ '' speaker(s) at conference''])
      else (0, parts))"

definition rule_based_validation :: "string \<Rightarrow> string \<Rightarrow> company_info \<Rightarrow> py_error + ICPResult" where
  "rule_based_validation self_name name info =
     (let industry = lower (get_industry info);
          (industry_sc, parts1) =
             industry_loop industry (target_industries ICP_CRITERIA) (0, []);
          speakers = get_speakers info;
          (title_sc, parts2) = title_loop speakers (0, parts1);
          (department_sc, parts3) = department_loop speakers (0, parts2);
          (size_sc, parts4) = size_step (get_company_size info) parts3;
          (bonus, reasoning_parts) = speaker_step speakers parts4;
          total = industry_sc + title_sc + department_sc + size_sc + bonus;
          fit = (if total \<ge> high ICP_THRESHOLDS then ''High''
                 else if total \<ge> medium ICP_THRESHOLDS then ''Medium''
                 else ''Low'');
          reason = (if reasoning_parts \<noteq> [] then join ''; '' reasoning_parts
                    else ''Insufficient data for scoring'')
      in ICPResult_init \<lparr>
           company_name = name, score = total, fit_level = fit, reasoning = reason,
           industry_score = industry_sc, title_score = title_sc,
           department_score = department_sc, size_score = size_sc,
           speaker_bonus = bonus, validated_by = self_name,
           disputed = False, dispute_reason = [], final_score = None \<rparr>)"

text \<open>
  What the loops compute, as predicates on the list they run over: some entry of the list
  has a title that contains, case-insensitively, one of the configured keywords.
\<close>

definition matches_industry :: "string \<Rightarrow> bool" where
  "matches_industry industry =
     (\<exists>t\<in>set (target_industries ICP_CRITERIA).
        py_in (lower t) (lower industry) \<or> py_in (lower industry) (lower t))"

definition matches_title :: "contact list \<Rightarrow> bool" where
  "matches_title cs =
     (\<exists>c\<in>set cs. \<exists>t\<in>set (target_titles ICP_CRITERIA). py_in (lower t) (lower (get_title c)))"

definition matches_department :: "contact list \<Rightarrow> bool" where
  "matches_department cs =
     (\<exists>c\<in>set cs. \<exists>d\<in>set (target_departments ICP_CRITERIA).
        py_in (lower d) (lower (get_title c)))"

text \<open>
  The rules of the scoring as the specification words them. The known contacts of an
  organization are its speakers and its attendees: the detail record lists both, and the
  export has one row for each of them. The industry rule matches a target industry as a
  substring in either direction; the title and the department rule look at the title of every
  known contact; the bonus is earned by an organization with at least one contact.
\<close>

definition contacts :: "company_info \<Rightarrow> contact list" where
  "contacts info = get_speakers info @ get_attendees info"

definition spec_industry_match :: "company_info \<Rightarrow> bool" where
  "spec_industry_match info = matches_industry (get_industry info)"

definition spec_title_match :: "company_info \<Rightarrow> bool" where
  "spec_title_match info = matches_title (contacts info)"

definition spec_department_match :: "company_info \<Rightarrow> bool" where
  "spec_department_match info = matches_department (contacts info)"

definition spec_speaker_bonus :: "company_info \<Rightarrow> int" where
  "spec_speaker_bonus info =
     (if contacts info \<noteq> [] then speaker_bonus_weight (weights ICP_CRITERIA) else 0)"

definition spec_size_score :: "company_info \<Rightarrow> int" where
  "spec_size_score info =
     (case get_company_size info of
        None \<Rightarrow> 0
      | Some n \<Rightarrow>
          if n \<ge> preferred_company_size ICP_CRITERIA then company_size (weights ICP_CRITERIA)
          else if n \<ge> min_company_size ICP_CRITERIA then company_size (weights ICP_CRITERIA) div 2
          else 0)"

definition spec_fit_level :: "int \<Rightarrow> string" where
  "spec_fit_level s =
     (if s \<ge> high ICP_THRESHOLDS then ''High''
      else if s \<ge> medium ICP_THRESHOLDS then ''Medium'' else ''Low'')"

definition spec_score :: "company_info \<Rightarrow> int" where
  "spec_score info =
     (if spec_industry_match info then industry_match (weights ICP_CRITERIA) else 0)
     + (if spec_title_match info then title_match (weights ICP_CRITERIA) else 0)
     + (if spec_department_match info then department_match (weights ICP_CRITERIA) else 0)
     + spec_size_score info + spec_speaker_bonus info"

section \<open>The scoring oracle (llm/gemini\_client.py)\<close>

text \<open>
  The oracle is an external service. Each of its calls either raises (\<open>Inl\<close>) or returns a
  dictionary parsed from JSON, whose keys may be missing (\<open>None\<close>) and whose values have
  the declared types. (In validation an answer with a value of another type makes the
  constructor raise inside the \<^verbatim>\<open>try\<close> block, which is the case \<open>Inl\<close>.) The theorems
  quantify over every oracle, so nothing is assumed about what it answers.
\<close>

record icp_response =
  resp_score :: "int option"
  resp_fit_level :: "string option"
  resp_reasoning :: "string option"
  resp_industry_score :: "int option"
  resp_title_score :: "int option"
  resp_department_score :: "int option"
  resp_size_score :: "int option"
  resp_speaker_bonus :: "int option"

record dispute_resolution =
  res_final_score :: "int option"
  res_final_fit_level :: "string option"
  res_explanation :: "string option"

record result_data =
  rd_company_name :: "string option"
  rd_score :: "int option"
  rd_fit_level :: "string option"
  rd_reasoning :: "string option"

record review_response =
  rr_should_dispute :: "bool option"
  rr_reason :: "string option"
  rr_suggested_score :: "int option"

record GeminiClient =
  validate_icp :: "company_info \<Rightarrow> icp_criteria \<Rightarrow> py_error + icp_response"
  resolve_dispute :: "ICPResult \<Rightarrow> string \<Rightarrow> int option \<Rightarrow> string \<Rightarrow> py_error + dispute_resolution"
  generate_json_review :: "result_data \<Rightarrow> company_info \<Rightarrow> py_error + review_response"

definition get_or :: "'a option \<Rightarrow> 'a \<Rightarrow> 'a" where
  "get_or v d = (case v of None \<Rightarrow> d | Some x \<Rightarrow> x)"

section \<open>The validator agent (agents/icp\_validator\_agent.py)\<close>

record ICPValidatorAgent =
  agent_name :: string
  gemini :: "GeminiClient option"
  pending_validations :: "string \<rightharpoonup> ICPResult"

definition ICPValidatorAgent_init :: "GeminiClient option \<Rightarrow> ICPValidatorAgent" where
  "ICPValidatorAgent_init g =
     \<lparr> agent_name = ''ICPValidatorAgent'', gemini = g, pending_validations = Map.empty \<rparr>"

text \<open>
  \<^verbatim>\<open>_validate_company\<close>: with an oracle, its answer becomes the result; the constructor runs
  inside the \<^verbatim>\<open>try\<close>, so an answer whose score it rejects falls through to the rules like
  any other oracle failure.
\<close>

definition validate_company :: "ICPValidatorAgent \<Rightarrow> string \<Rightarrow> company_info \<Rightarrow> py_error + ICPResult" where
  "validate_company self name info =
     (case (case gemini self of
              None \<Rightarrow> None
            | Some g \<Rightarrow>
                (case validate_icp g info ICP_CRITERIA of
                   Inl e \<Rightarrow> None
                 | Inr result \<Rightarrow>
                     (case ICPResult_init \<lparr>
                             company_name = name,
                             score = get_or (resp_score result) 50,
                             fit_level = get_or (resp_fit_level result) ''Medium'',
                             reasoning = get_or (resp_reasoning result) [],
                             industry_score = get_or (resp_industry_score result) 0,
                             title_score = get_or (resp_title_score result) 0,
                             department_score = get_or (resp_department_score result) 0,
                             size_score = get_or (resp_size_score result) 0,
                             speaker_bonus = get_or (resp_speaker_bonus result) 0,
                             validated_by = agent_name self,
                             disputed = False, dispute_reason = [], final_score = None \<rparr> of
                        Inl e \<Rightarrow> None
                      | Inr r \<Rightarrow> Some r))) of
        Some r \<Rightarrow> Inr r
      | None \<Rightarrow> rule_based_validation (agent_name self) name info)"

text \<open>
  \<^verbatim>\<open>_handle_dispute\<close>. The fallback (no oracle, or the oracle raised) tests
  \<^verbatim>\<open>suggested_score and abs(suggested_score - original.score) <= 20\<close>: the first conjunct is
  the truth value of the suggestion, false when it is absent and when it is 0.
\<close>

definition accept_suggested :: "ICPResult \<Rightarrow> ICPResult \<Rightarrow> int option \<Rightarrow> ICPResult" where
  "accept_suggested original revised suggested =
     (case suggested of
        None \<Rightarrow> revised
      | Some s \<Rightarrow>
          if s \<noteq> 0 \<and> \<bar>s - score original\<bar> \<le> 20
          then revised\<lparr> score := s, final_score := Some s \<rparr>
          else revised)"

text \<open>
  The middle block of \<^verbatim>\<open>_handle_dispute\<close>: with an oracle, its resolution is adopted
  (a missing \<^verbatim>\<open>final_score\<close> defaults to the original score); when the call raises, and
  when there is no oracle, the fallback decides.
\<close>

definition resolve_step ::
    "ICPValidatorAgent \<Rightarrow> ICPResult \<Rightarrow> ICPResult \<Rightarrow> string \<Rightarrow> int option \<Rightarrow> ICPResult" where
  "resolve_step self original revised why suggested =
     (case gemini self of
        Some g \<Rightarrow>
          (case resolve_dispute g original why suggested (company_name original) of
             Inr resolution \<Rightarrow>
               revised\<lparr>
                 final_score := Some (get_or (res_final_score resolution) (score original)),
                 score := get_or (res_final_score resolution) (score original),
                 fit_level := get_or (res_final_fit_level resolution) (fit_level original),
                 reasoning := reasoning original @ '' | Dispute resolved: ''
                                @ get_or (res_explanation resolution) [] \<rparr>
           | Inl e \<Rightarrow> accept_suggested original revised suggested)
      | None \<Rightarrow> accept_suggested original revised suggested)"

definition handle_dispute ::
    "ICPValidatorAgent \<Rightarrow> ICPResult \<Rightarrow> string \<Rightarrow> int option \<Rightarrow> py_error + ICPResult \<times> ICPValidatorAgent" where
  "handle_dispute self original why suggested =
     (case ICPResult_init \<lparr>
             company_name = company_name original, score = score original,
             fit_level = fit_level original, reasoning = reasoning original,
             industry_score = industry_score original, title_score = title_score original,
             department_score = department_score original, size_score = size_score original,
             speaker_bonus = speaker_bonus original, validated_by = validated_by original,
             disputed = True, dispute_reason = why, final_score = None \<rparr> of
        Inl e \<Rightarrow> Inl e
      | Inr revised \<Rightarrow>
          (let revised1 = resolve_step self original revised why suggested;
               revised2 =
                 revised1\<lparr> fit_level :=
                   (if score revised1 \<ge> high ICP_THRESHOLDS then ''High''
                    else if score revised1 \<ge> medium ICP_THRESHOLDS then ''Medium''
                    else ''Low'') \<rparr>
           in Inr (revised2,
                   self\<lparr> pending_validations :=
                     (pending_validations self)(company_name original \<mapsto> revised2) \<rparr>)))"


text \<open>The score that display and export use: \<^verbatim>\<open>final_score\<close> when set, else \<^verbatim>\<open>score\<close>.\<close>

definition effective_score :: "ICPResult \<Rightarrow> int" where
  "effective_score r = get_or (final_score r) (score r)"


definition resolution_without_oracle ::
    "ICPValidatorAgent \<Rightarrow> ICPResult \<Rightarrow> string \<Rightarrow> int option \<Rightarrow> bool" where
  "resolution_without_oracle self original why suggested =
     (case gemini self of
        None \<Rightarrow> True
      | Some g \<Rightarrow> isl (resolve_dispute g original why suggested (company_name original)))"

section \<open>The quality reviewer (agents/quality\_agent.py)\<close>

record review =
  review_company_name :: "string option"
  original_score :: "int option"
  should_dispute :: bool
  reason :: string
  suggested_score :: "int option"

record QualityAgent =
  quality_name :: string
  quality_gemini :: "GeminiClient option"

definition model_dump :: "ICPResult \<Rightarrow> result_data" where
  "model_dump r =
     \<lparr> rd_company_name = Some (company_name r), rd_score = Some (score r),
       rd_fit_level = Some (fit_level r), rd_reasoning = Some (reasoning r) \<rparr>"

definition senior_titles :: "string list" where
  "senior_titles = [''SVP'', ''VP'', ''Chief'', ''Director'', ''President'', ''Head of'']"

definition field_service_keywords :: "string list" where
  "field_service_keywords = [''field service'', ''service'', ''aftermarket'', ''support'']"

definition gemini_review :: "GeminiClient \<Rightarrow> result_data \<Rightarrow> company_info \<Rightarrow> py_error + review" where
  "gemini_review g rd info =
     (case generate_json_review g rd info of
        Inl e \<Rightarrow> Inl e
      | Inr response \<Rightarrow>
          Inr \<lparr> review_company_name = rd_company_name rd,
                original_score = rd_score rd,
                should_dispute = get_or (rr_should_dispute response) False,
                reason = get_or (rr_reason response) [],
                suggested_score = rr_suggested_score response \<rparr>)"

definition has_senior_speaker :: "contact list \<Rightarrow> bool" where
  "has_senior_speaker speakers =
     list_ex (\<lambda>speaker. list_ex (\<lambda>st. py_in (lower st) (lower (get_title speaker))) senior_titles)
       speakers"

definition has_fs_title :: "contact list \<Rightarrow> bool" where
  "has_fs_title speakers =
     list_ex (\<lambda>speaker. list_ex (\<lambda>kw. py_in kw (lower (get_title speaker))) field_service_keywords)
       speakers"

definition review_score_data :: "QualityAgent \<Rightarrow> result_data \<Rightarrow> company_info \<Rightarrow> review" where
  "review_score_data self rd info =
     (let name = get_or (rd_company_name rd) ''Unknown'';
          sc = get_or (rd_score rd) 0;
          reasoning_text = get_or (rd_reasoning rd) [];
          rv = \<lparr> review_company_name = Some name, original_score = Some sc,
                 should_dispute = False, reason = [], suggested_score = None \<rparr>;
          speakers = get_speakers info
      in if speakers \<noteq> [] \<and> sc < 60
         then rv\<lparr> should_dispute := True,
                  reason := ''Company has '' @ str_int (int (length speakers))
                            @ '' speaker(s) but score is only '' @ str_int sc,
                  suggested_score := Some (min (sc + 15) 85) \<rparr>
         else if has_senior_speaker speakers \<and> sc < 70
         then rv\<lparr> should_dispute := True,
                  reason := ''Company has senior-level speaker but score is '' @ str_int sc,
                  suggested_score := Some (min (sc + 20) 90) \<rparr>
         else if has_fs_title speakers \<and> sc < 75
         then rv\<lparr> should_dispute := True,
                  reason := ''Company has Field Service leadership but score is '' @ str_int sc,
                  suggested_score := Some (min (sc + 15) 92) \<rparr>
         else if sc \<ge> 80 \<and> speakers = [] \<and> py_in ''Unknown'' reasoning_text
         then rv\<lparr> should_dispute := True,
                  reason := ''High score ('' @ str_int sc @ '') with insufficient evidence'',
                  suggested_score := Some (max (sc - 15) 50) \<rparr>
         else (case quality_gemini self of
                 None \<Rightarrow> rv
               | Some g \<Rightarrow>
                   if sc \<ge> 50
                   then (case gemini_review g rd info of
                           Inl e \<Rightarrow> rv
                         | Inr grv \<Rightarrow> if should_dispute grv then grv else rv)
                   else rv))"

definition review_score :: "QualityAgent \<Rightarrow> ICPResult \<Rightarrow> company_info \<Rightarrow> review" where
  "review_score self result info = review_score_data self (model_dump result) info"

text \<open>
  The four rules as the specification words them, with the suggestion of the first rule
  that fires (\<open>None\<close> when the score is confirmed). A contact is a speaker or an attendee of
  the organization. A reasoning indicates unknown or insufficient evidence when it says
  "unknown" or "insufficient", in any letter case.
\<close>

definition indicates_insufficient :: "string \<Rightarrow> bool" where
  "indicates_insufficient text =
     (py_in ''unknown'' (lower text) \<or> py_in ''insufficient'' (lower text))"

definition spec_review :: "result_data \<Rightarrow> company_info \<Rightarrow> int option" where
  "spec_review rd info =
     (let sc = get_or (rd_score rd) 0;
          cs = contacts info
      in if cs \<noteq> [] \<and> sc < 60 then Some (min (sc + 15) 85)
         else if has_senior_speaker cs \<and> sc < 70 then Some (min (sc + 20) 90)
         else if has_fs_title cs \<and> sc < 75 then Some (min (sc + 15) 92)
         else if sc \<ge> 80 \<and> cs = [] \<and> indicates_insufficient (get_or (rd_reasoning rd) [])
         then Some (max (sc - 15) 50)
         else None)"

section \<open>Pipeline records (models/schemas.py)\<close>

record Speaker =
  speaker_name :: string
  speaker_title :: string
  speaker_company :: string
  bio :: string
  session_title :: string
  linkedin_url :: string

record Attendee =
  attendee_name :: string
  attendee_title :: string
  attendee_company :: string

record Company =
  co_name :: string
  co_industry :: string
  co_size :: "int option"
  co_size_category :: string
  co_headquarters :: string
  co_website :: string
  co_description :: string
  co_source :: string
  co_speakers :: "string list"
  co_attendees :: "string list"

record ConferenceData =
  conference_url :: string
  conference_name :: string
  conference_date :: string
  conference_location :: string
  speakers :: "Speaker list"
  attendees :: "Attendee list"
  companies :: "Company list"
  scraped_at :: nat

datatype MessageType = REQUEST | RESPONSE | DISPUTE | CONFIRM | ERROR | STATUS

datatype py_value =
    PyNone
  | PyBool bool
  | PyInt int
  | PyStr string
  | PyList "py_value list"
  | PyDict "(string \<times> py_value) list"

record AgentMessage =
  message_id :: string
  sender :: string
  recipient :: string
  message_type :: MessageType
  action :: string
  payload :: "(string \<times> py_value) list"
  requires_response :: bool
  conversation_id :: string
  timestamp :: nat

record AgentContext =
  url :: string
  conference_data :: "ConferenceData option"
  icp_results :: "ICPResult list"
  messages :: "AgentMessage list"
  errors :: "string list"
  status :: string
  current_agent :: string
  verbose :: bool

section \<open>The shared context (communication/context.py)\<close>

text \<open>
  The state of \<^verbatim>\<open>SharedContext\<close> by value: the live context (the field \<^verbatim>\<open>context\<close>, here
  \<open>agent_context\<close>) and the named checkpoints.
  (Object identities, which deep copies are about, are the subject of the store model
  further down.)
\<close>

record SharedContext =
  agent_context :: AgentContext
  checkpoints :: "string \<rightharpoonup> AgentContext"
  start_time :: nat

definition SharedContext_init :: "string \<Rightarrow> bool \<Rightarrow> nat \<Rightarrow> SharedContext" where
  "SharedContext_init u v now =
     \<lparr> agent_context = \<lparr> url = u, conference_data = None, icp_results = [], messages = [],
                   errors = [], status = ''initialized'', current_agent = [], verbose = v \<rparr>,
       checkpoints = Map.empty,
       start_time = now \<rparr>"

definition set_current_agent :: "SharedContext \<Rightarrow> string \<Rightarrow> SharedContext" where
  "set_current_agent self a = self\<lparr> agent_context := (agent_context self)\<lparr> current_agent := a \<rparr> \<rparr>"

definition set_status :: "SharedContext \<Rightarrow> string \<Rightarrow> SharedContext" where
  "set_status self s = self\<lparr> agent_context := (agent_context self)\<lparr> status := s \<rparr> \<rparr>"

definition add_message :: "SharedContext \<Rightarrow> AgentMessage \<Rightarrow> SharedContext" where
  "add_message self m =
     self\<lparr> agent_context := (agent_context self)\<lparr> messages := messages (agent_context self) @ [m] \<rparr> \<rparr>"

definition add_error :: "SharedContext \<Rightarrow> string \<Rightarrow> SharedContext" where
  "add_error self e =
     self\<lparr> agent_context := (agent_context self)\<lparr> errors := errors (agent_context self) @ [e] \<rparr> \<rparr>"

text \<open>
  \<open>py_index xs x\<close> is \<^verbatim>\<open>xs.index(x)\<close>: the position of the first element equal to \<open>x\<close>;
  Python raises \<^verbatim>\<open>ValueError\<close> when there is none.
\<close>

fun py_index :: "'a list \<Rightarrow> 'a \<Rightarrow> nat option" where
  "py_index [] x = None"
| "py_index (y # ys) x = (if y = x then Some 0 else map_option Suc (py_index ys x))"

text \<open>
  \<^verbatim>\<open>add_icp_result\<close>: the first record with the same \<^verbatim>\<open>company_name\<close> (compared as it is
  written, case included) is looked up; when there is one, the new record is stored at its
  index, else it is appended.
\<close>

definition add_icp_result :: "SharedContext \<Rightarrow> ICPResult \<Rightarrow> py_error + SharedContext" where
  "add_icp_result self result =
     (let results = icp_results (agent_context self)
      in case find (\<lambda>r. company_name r = company_name result) results of
           Some existing \<Rightarrow>
             (case py_index results existing of
                None \<Rightarrow> Inl ValueError
              | Some idx \<Rightarrow>
                  Inr (self\<lparr> agent_context := (agent_context self)\<lparr> icp_results := results[idx := result] \<rparr> \<rparr>))
         | None \<Rightarrow>
             Inr (self\<lparr> agent_context := (agent_context self)\<lparr> icp_results := results @ [result] \<rparr> \<rparr>))"

definition create_checkpoint :: "SharedContext \<Rightarrow> string \<Rightarrow> SharedContext" where
  "create_checkpoint self name = self\<lparr> checkpoints := (checkpoints self)(name \<mapsto> agent_context self) \<rparr>"

definition restore_checkpoint :: "SharedContext \<Rightarrow> string \<Rightarrow> bool \<times> SharedContext" where
  "restore_checkpoint self name =
     (case checkpoints self name of
        Some saved \<Rightarrow> (True, self\<lparr> agent_context := saved \<rparr>)
      | None \<Rightarrow> (False, self))"

text \<open>
  \<^verbatim>\<open>get_companies\<close> collects the names in a Python set of strings and returns
  \<^verbatim>\<open>list(companies)\<close>: a list without repetitions, in the iteration order of the set, which
  the language leaves open. The model returns the set of its elements. A company name is
  added as it is; the affiliation of a speaker or attendee only when it is not empty.
\<close>

definition get_companies :: "SharedContext \<Rightarrow> string set" where
  "get_companies self =
     (case conference_data (agent_context self) of
        None \<Rightarrow> {}
      | Some cd \<Rightarrow>
          (let c1 = fold (\<lambda>company acc. insert (co_name company) acc) (companies cd) {};
               c2 = fold (\<lambda>speaker acc. if speaker_company speaker \<noteq> []
                                         then insert (speaker_company speaker) acc else acc)
                      (speakers cd) c1;
               c3 = fold (\<lambda>attendee acc. if attendee_company attendee \<noteq> []
                                          then insert (attendee_company attendee) acc else acc)
                      (attendees cd) c2
           in c3))"

section \<open>The message bus (communication/message\_bus.py)\<close>

text \<open>
  The bus stores handlers, which are callables of the agents. A handler is named by a value
  of type \<open>'h\<close>; what it does is given by a function \<open>run\<close> that, from the handler, the
  message and the state \<open>'w\<close> of the agents, yields the new state of the agents and either
  an exception or an optional response. No handler of the repository calls back into the
  bus, so running a handler leaves the bus itself alone. The two dictionaries are
  \<^verbatim>\<open>defaultdict(list)\<close>; the subscribers keep their insertion order, which the broadcast
  loop follows.
\<close>

record 'h MessageBus =
  bus_verbose :: bool
  subscribers :: "(string \<times> 'h list) list"
  message_history :: "AgentMessage list"
  pending_messages :: "string \<rightharpoonup> AgentMessage list"

type_synonym ('h, 'w) runner = "'h \<Rightarrow> AgentMessage \<Rightarrow> 'w \<Rightarrow> 'w \<times> (py_error + AgentMessage option)"

definition MessageBus_init :: "bool \<Rightarrow> 'h MessageBus" where
  "MessageBus_init v =
     \<lparr> bus_verbose = v, subscribers = [], message_history = [], pending_messages = Map.empty \<rparr>"

fun append_handler :: "(string \<times> 'h list) list \<Rightarrow> string \<Rightarrow> 'h \<Rightarrow> (string \<times> 'h list) list" where
  "append_handler [] agent handler = [(agent, [handler])]"
| "append_handler ((k, hs) # rest) agent handler =
     (if k = agent then (k, hs @ [handler]) # rest
      else (k, hs) # append_handler rest agent handler)"

definition subscribe :: "'h MessageBus \<Rightarrow> string \<Rightarrow> 'h \<Rightarrow> 'h MessageBus" where
  "subscribe self agent handler =
     self\<lparr> subscribers := append_handler (subscribers self) agent handler \<rparr>"

definition unsubscribe :: "'h MessageBus \<Rightarrow> string \<Rightarrow> 'h MessageBus" where
  "unsubscribe self agent =
     self\<lparr> subscribers := filter (\<lambda>(k, hs). k \<noteq> agent) (subscribers self) \<rparr>"

text \<open>The broadcast loops: every handler of every other agent is called, its answer dropped.\<close>

fun broadcast_handlers :: "('h, 'w) runner \<Rightarrow> AgentMessage \<Rightarrow> 'h list \<Rightarrow> 'w \<Rightarrow> 'w \<times> py_error option" where
  "broadcast_handlers run m [] w = (w, None)"
| "broadcast_handlers run m (h # hs) w =
     (case run h m w of
        (w', Inl e) \<Rightarrow> (w', Some e)
      | (w', Inr response) \<Rightarrow> broadcast_handlers run m hs w')"

fun broadcast_agents ::
    "('h, 'w) runner \<Rightarrow> AgentMessage \<Rightarrow> (string \<times> 'h list) list \<Rightarrow> 'w \<Rightarrow> 'w \<times> py_error option" where
  "broadcast_agents run m [] w = (w, None)"
| "broadcast_agents run m ((agent, hs) # rest) w =
     (if agent \<noteq> sender m
      then (case broadcast_handlers run m hs w of
              (w', Some e) \<Rightarrow> (w', Some e)
            | (w', None) \<Rightarrow> broadcast_agents run m rest w')
      else broadcast_agents run m rest w)"

text \<open>Point-to-point delivery: the handlers in order, up to the first response.\<close>

fun deliver :: "('h, 'w) runner \<Rightarrow> AgentMessage \<Rightarrow> 'h list \<Rightarrow> 'w \<Rightarrow> 'w \<times> (py_error + AgentMessage option)" where
  "deliver run m [] w = (w, Inr None)"
| "deliver run m (h # hs) w =
     (case run h m w of
        (w', Inl e) \<Rightarrow> (w', Inl e)
      | (w', Inr (Some response)) \<Rightarrow> (w', Inr (Some response))
      | (w', Inr None) \<Rightarrow> deliver run m hs w')"

text \<open>
  \<^verbatim>\<open>send\<close> returns the state of the agents, the bus, and the outcome: an exception of a
  handler (\<open>Inl\<close>), or the optional response.
\<close>

definition send ::
    "('h, 'w) runner \<Rightarrow> 'h MessageBus \<Rightarrow> AgentMessage \<Rightarrow> 'w
       \<Rightarrow> ('w \<times> 'h MessageBus) \<times> (py_error + AgentMessage option)" where
  "send run self m w =
     (let self1 = self\<lparr> message_history := message_history self @ [m] \<rparr>
      in if recipient m = ''ALL''
         then (case broadcast_agents run m (subscribers self1) w of
                 (w', Some e) \<Rightarrow> ((w', self1), Inl e)
               | (w', None) \<Rightarrow> ((w', self1), Inr None))
         else (case map_of (subscribers self1) (recipient m) of
                 Some handlers \<Rightarrow>
                   (case deliver run m handlers w of
                      (w', Inl e) \<Rightarrow> ((w', self1), Inl e)
                    | (w', Inr (Some response)) \<Rightarrow>
                        ((w', self1\<lparr> message_history := message_history self1 @ [response] \<rparr>),
                         Inr (Some response))
                    | (w', Inr None) \<Rightarrow> ((w', self1), Inr None))
               | None \<Rightarrow>
                   ((w, self1\<lparr> pending_messages :=
                           (pending_messages self1)
                             (recipient m \<mapsto> get_or (pending_messages self1 (recipient m)) [] @ [m]) \<rparr>),
                    Inr None)))"

definition get_pending_messages :: "'h MessageBus \<Rightarrow> string \<Rightarrow> AgentMessage list \<times> 'h MessageBus" where
  "get_pending_messages self agent =
     (get_or (pending_messages self agent) [],
      self\<lparr> pending_messages := (pending_messages self)(agent := None) \<rparr>)"

text \<open>
  A run of the bus: a sequence of calls, each applied to the state the previous one left
  (an exception of a handler is the caller's to catch and does not stop the bus).
\<close>

datatype 'h bus_call =
    Send AgentMessage
  | Subscribe string 'h
  | Unsubscribe string
  | GetPending string

fun bus_step :: "('h, 'w) runner \<Rightarrow> 'h bus_call \<Rightarrow> 'w \<times> 'h MessageBus \<Rightarrow> 'w \<times> 'h MessageBus" where
  "bus_step run (Send m) (w, bus) = fst (send run bus m w)"
| "bus_step run (Subscribe agent h) (w, bus) = (w, subscribe bus agent h)"
| "bus_step run (Unsubscribe agent) (w, bus) = (w, unsubscribe bus agent)"
| "bus_step run (GetPending agent) (w, bus) = (w, snd (get_pending_messages bus agent))"

definition bus_run :: "('h, 'w) runner \<Rightarrow> 'h bus_call list \<Rightarrow> 'w \<times> 'h MessageBus \<Rightarrow> 'w \<times> 'h MessageBus" where
  "bus_run run calls st = fold (bus_step run) calls st"

text \<open>The messages that a run sends to one recipient, in send order.\<close>

fun sent_to :: "string \<Rightarrow> 'h bus_call list \<Rightarrow> AgentMessage list" where
  "sent_to agent [] = []"
| "sent_to agent (Send m # calls) =
     (if recipient m = agent then m # sent_to agent calls else sent_to agent calls)"
| "sent_to agent (c # calls) = sent_to agent calls"

fun untouched :: "string \<Rightarrow> 'h bus_call \<Rightarrow> bool" where
  "untouched agent (Subscribe a h) = (a \<noteq> agent)"
| "untouched agent (GetPending a) = (a \<noteq> agent)"
| "untouched agent c = True"

text \<open>The queue of an agent: the messages pending for it, none when it has no entry.\<close>

definition queue_of :: "'h MessageBus \<Rightarrow> string \<Rightarrow> AgentMessage list" where
  "queue_of bus agent = get_or (pending_messages bus agent) []"

section \<open>Objects and deep copies\<close>

text \<open>
  Checkpoints are deep copies, and what a deep copy promises is about the identity of
  objects: which object a reference leads to, and who else holds a reference to it. The
  store makes this explicit. It is the list of all objects allocated so far; an address is
  a position in it; allocation appends. A context object refers to its conference object,
  to its three list objects and, through the lists, to the record objects. A record object
  is a leaf: its fields are strings, numbers and values it owns alone.
\<close>

type_synonym addr = nat

datatype leaf =
    ResultL ICPResult
  | MessageL AgentMessage
  | SpeakerL Speaker
  | AttendeeL Attendee
  | CompanyL Company
  | StringsL "string list"

text \<open>
  The arguments of \<open>ConferenceObj\<close> and \<open>ContextObj\<close> are the fields of \<^verbatim>\<open>ConferenceData\<close>
  and \<^verbatim>\<open>AgentContext\<close> in their order of declaration; a field that holds a list or a
  model holds its address.
\<close>

datatype obj =
    Leaf leaf
  | RefList "addr list"
  | ConferenceObj string string string string addr addr addr nat
  | ContextObj string "addr option" addr addr addr string string bool

type_synonym store = "obj list"

definition lookup :: "store \<Rightarrow> addr \<Rightarrow> obj option" where
  "lookup h a = (if a < length h then Some (h ! a) else None)"

subsection \<open>Reading a context out of the store\<close>

fun the_result :: "leaf \<Rightarrow> ICPResult option" where
  "the_result (ResultL r) = Some r"
| "the_result l = None"

fun the_message :: "leaf \<Rightarrow> AgentMessage option" where
  "the_message (MessageL m) = Some m"
| "the_message l = None"

fun the_speaker :: "leaf \<Rightarrow> Speaker option" where
  "the_speaker (SpeakerL s) = Some s"
| "the_speaker l = None"

fun the_attendee :: "leaf \<Rightarrow> Attendee option" where
  "the_attendee (AttendeeL a) = Some a"
| "the_attendee l = None"

fun the_company :: "leaf \<Rightarrow> Company option" where
  "the_company (CompanyL c) = Some c"
| "the_company l = None"

fun the_strings :: "leaf \<Rightarrow> string list option" where
  "the_strings (StringsL ss) = Some ss"
| "the_strings l = None"

definition view_leaf :: "(leaf \<Rightarrow> 'a option) \<Rightarrow> store \<Rightarrow> addr \<Rightarrow> 'a option" where
  "view_leaf p h a = (case lookup h a of Some (Leaf l) \<Rightarrow> p l | _ \<Rightarrow> None)"

fun view_leaves :: "(leaf \<Rightarrow> 'a option) \<Rightarrow> store \<Rightarrow> addr list \<Rightarrow> 'a list option" where
  "view_leaves p h [] = Some []"
| "view_leaves p h (a # as) =
     (case view_leaf p h a of
        None \<Rightarrow> None
      | Some x \<Rightarrow> map_option ((#) x) (view_leaves p h as))"

definition view_list :: "(leaf \<Rightarrow> 'a option) \<Rightarrow> store \<Rightarrow> addr \<Rightarrow> 'a list option" where
  "view_list p h a = (case lookup h a of Some (RefList as) \<Rightarrow> view_leaves p h as | _ \<Rightarrow> None)"

definition view_conference :: "store \<Rightarrow> addr \<Rightarrow> ConferenceData option" where
  "view_conference h a =
     (case lookup h a of
        Some (ConferenceObj u n d l sp at co t) \<Rightarrow>
          (case (view_list the_speaker h sp, view_list the_attendee h at,
                 view_list the_company h co) of
             (Some ss, Some ats, Some cs) \<Rightarrow>
               Some \<lparr> conference_url = u, conference_name = n, conference_date = d,
                      conference_location = l, speakers = ss, attendees = ats,
                      companies = cs, scraped_at = t \<rparr>
           | _ \<Rightarrow> None)
      | _ \<Rightarrow> None)"

definition view_conference_opt :: "store \<Rightarrow> addr option \<Rightarrow> ConferenceData option option" where
  "view_conference_opt h cd =
     (case cd of
        None \<Rightarrow> Some None
      | Some c \<Rightarrow> map_option Some (view_conference h c))"

text \<open>
  \<open>view_context h a\<close> is the context at address \<open>a\<close> by value, when the objects it leads
  to are there and of the declared types.
\<close>

definition view_context :: "store \<Rightarrow> addr \<Rightarrow> AgentContext option" where
  "view_context h a =
     (case lookup h a of
        Some (ContextObj u cd rs ms es st ca v) \<Rightarrow>
          (case (view_conference_opt h cd, view_list the_result h rs,
                 view_list the_message h ms, view_leaf the_strings h es) of
             (Some c, Some results, Some msgs, Some errs) \<Rightarrow>
               Some \<lparr> url = u, conference_data = c, icp_results = results, messages = msgs,
                      errors = errs, status = st, current_agent = ca, verbose = v \<rparr>
           | _ \<Rightarrow> None)
      | _ \<Rightarrow> None)"

subsection \<open>The objects of a context\<close>

definition reach_list :: "store \<Rightarrow> addr \<Rightarrow> addr set" where
  "reach_list h a = (case lookup h a of Some (RefList as) \<Rightarrow> insert a (set as) | _ \<Rightarrow> {a})"

definition reach_conference :: "store \<Rightarrow> addr \<Rightarrow> addr set" where
  "reach_conference h a =
     (case lookup h a of
        Some (ConferenceObj u n d l sp at co t) \<Rightarrow>
          insert a (reach_list h sp \<union> reach_list h at \<union> reach_list h co)
      | _ \<Rightarrow> {a})"

definition reach_context :: "store \<Rightarrow> addr \<Rightarrow> addr set" where
  "reach_context h a =
     (case lookup h a of
        Some (ContextObj u cd rs ms es st ca v) \<Rightarrow>
          insert a ((case cd of None \<Rightarrow> {} | Some c \<Rightarrow> reach_conference h c)
                    \<union> reach_list h rs \<union> reach_list h ms \<union> {es})
      | _ \<Rightarrow> {a})"

subsection \<open>Deep copy\<close>

text \<open>
  \<^verbatim>\<open>model_copy(deep=True)\<close> copies the object and, recursively, everything it refers to,
  as \<^verbatim>\<open>copy.deepcopy\<close> does: every object met is allocated anew, and a table of the objects
  already copied (the memo) makes a second reference to an object lead to its one copy.
  Strings and numbers are not copied. The result is \<open>None\<close> when a reference leads
  nowhere or to an object of the wrong kind.
\<close>

type_synonym memo = "addr \<rightharpoonup> addr"

definition copy_leaf :: "memo \<Rightarrow> store \<Rightarrow> addr \<Rightarrow> (addr \<times> memo \<times> store) option" where
  "copy_leaf m h a =
     (case m a of
        Some b \<Rightarrow> Some (b, m, h)
      | None \<Rightarrow>
          (case lookup h a of
             Some (Leaf l) \<Rightarrow> Some (length h, m(a \<mapsto> length h), h @ [Leaf l])
           | _ \<Rightarrow> None))"

fun copy_leaves :: "memo \<Rightarrow> store \<Rightarrow> addr list \<Rightarrow> (addr list \<times> memo \<times> store) option" where
  "copy_leaves m h [] = Some ([], m, h)"
| "copy_leaves m h (a # as) =
     (case copy_leaf m h a of
        None \<Rightarrow> None
      | Some (b, m1, h1) \<Rightarrow>
          (case copy_leaves m1 h1 as of
             None \<Rightarrow> None
           | Some (bs, m2, h2) \<Rightarrow> Some (b # bs, m2, h2)))"

definition copy_list :: "memo \<Rightarrow> store \<Rightarrow> addr \<Rightarrow> (addr \<times> memo \<times> store) option" where
  "copy_list m h a =
     (case m a of
        Some b \<Rightarrow> Some (b, m, h)
      | None \<Rightarrow>
          (case lookup h a of
             Some (RefList as) \<Rightarrow>
               (case copy_leaves m h as of
                  None \<Rightarrow> None
                | Some (bs, m1, h1) \<Rightarrow>
                    Some (length h1, m1(a \<mapsto> length h1), h1 @ [RefList bs]))
           | _ \<Rightarrow> None))"

definition copy_conference :: "memo \<Rightarrow> store \<Rightarrow> addr \<Rightarrow> (addr \<times> memo \<times> store) option" where
  "copy_conference m h a =
     (case lookup h a of
        Some (ConferenceObj u n d l sp at co t) \<Rightarrow>
          (case copy_list m h sp of
             None \<Rightarrow> None
           | Some (sp', m1, h1) \<Rightarrow>
               (case copy_list m1 h1 at of
                  None \<Rightarrow> None
                | Some (at', m2, h2) \<Rightarrow>
                    (case copy_list m2 h2 co of
                       None \<Rightarrow> None
                     | Some (co', m3, h3) \<Rightarrow>
                         Some (length h3, m3, h3 @ [ConferenceObj u n d l sp' at' co' t]))))
      | _ \<Rightarrow> None)"

definition copy_conference_opt ::
    "memo \<Rightarrow> store \<Rightarrow> addr option \<Rightarrow> (addr option \<times> memo \<times> store) option" where
  "copy_conference_opt m h cd =
     (case cd of
        None \<Rightarrow> Some (None, m, h)
      | Some c \<Rightarrow>
          (case copy_conference m h c of
             None \<Rightarrow> None
           | Some (c', m1, h1) \<Rightarrow> Some (Some c', m1, h1)))"

definition copy_context :: "memo \<Rightarrow> store \<Rightarrow> addr \<Rightarrow> (addr \<times> memo \<times> store) option" where
  "copy_context m h a =
     (case lookup h a of
        Some (ContextObj u cd rs ms es st ca v) \<Rightarrow>
          (case copy_conference_opt m h cd of
             None \<Rightarrow> None
           | Some (cd', m1, h1) \<Rightarrow>
               (case copy_list m1 h1 rs of
                  None \<Rightarrow> None
                | Some (rs', m2, h2) \<Rightarrow>
                    (case copy_list m2 h2 ms of
                       None \<Rightarrow> None
                     | Some (ms', m3, h3) \<Rightarrow>
                         (case copy_leaf m3 h3 es of
                            None \<Rightarrow> None
                          | Some (es', m4, h4) \<Rightarrow>
                              Some (length h4, m4,
                                    h4 @ [ContextObj u cd' rs' ms' es' st ca v])))))
      | _ \<Rightarrow> None)"

definition deepcopy :: "store \<Rightarrow> addr \<Rightarrow> (addr \<times> store) option" where
  "deepcopy h a =
     (case copy_context Map.empty h a of
        None \<Rightarrow> None
      | Some (b, m, h') \<Rightarrow> Some (b, h'))"

subsection \<open>The shared context over the store\<close>

text \<open>
  \<open>live\<close> is the reference \<^verbatim>\<open>self.context\<close>, \<open>saved\<close> the dictionary
  \<^verbatim>\<open>self._checkpoints\<close> from names to references.
\<close>

record shared_state =
  store :: store
  live :: addr
  saved :: "string \<rightharpoonup> addr"

definition shared_state_init :: "string \<Rightarrow> bool \<Rightarrow> shared_state" where
  "shared_state_init u v =
     \<lparr> store = [Leaf (StringsL []), RefList [], RefList [],
                 ContextObj u None 2 1 0 ''initialized'' [] v],
       live = 3, saved = Map.empty \<rparr>"

definition create_checkpoint_s :: "shared_state \<Rightarrow> string \<Rightarrow> shared_state option" where
  "create_checkpoint_s self name =
     (case deepcopy (store self) (live self) of
        None \<Rightarrow> None
      | Some (b, h') \<Rightarrow> Some (self\<lparr> store := h', saved := (saved self)(name \<mapsto> b) \<rparr>))"

definition restore_checkpoint_s :: "shared_state \<Rightarrow> string \<Rightarrow> (bool \<times> shared_state) option" where
  "restore_checkpoint_s self name =
     (case saved self name of
        Some c \<Rightarrow>
          (case deepcopy (store self) c of
             None \<Rightarrow> None
           | Some (b, h') \<Rightarrow> Some (True, self\<lparr> store := h', live := b \<rparr>))
      | None \<Rightarrow> Some (False, self))"

text \<open>
  \<^verbatim>\<open>add_icp_result\<close> over the store. The caller passes a reference to its result object;
  the list object of the live context is changed in place. \<^verbatim>\<open>list.index\<close> compares by
  value, so it finds the first entry whose record equals the existing one.
\<close>

definition result_at :: "store \<Rightarrow> addr \<Rightarrow> ICPResult option" where
  "result_at h a = view_leaf the_result h a"

fun index_where :: "('a \<Rightarrow> bool) \<Rightarrow> 'a list \<Rightarrow> nat option" where
  "index_where P [] = None"
| "index_where P (x # xs) = (if P x then Some 0 else map_option Suc (index_where P xs))"

definition add_icp_result_s :: "shared_state \<Rightarrow> addr \<Rightarrow> shared_state option" where
  "add_icp_result_s self ra =
     (let h = store self
      in case (lookup h (live self), result_at h ra) of
           (Some (ContextObj u cd rs ms es st ca v), Some result) \<Rightarrow>
             (case lookup h rs of
                Some (RefList as) \<Rightarrow>
                  (case find (\<lambda>x. map_option company_name (result_at h x)
                                     = Some (company_name result)) as of
                     Some existing \<Rightarrow>
                       (case index_where (\<lambda>x. result_at h x = result_at h existing) as of
                          None \<Rightarrow> None
                        | Some idx \<Rightarrow> Some (self\<lparr> store := h[rs := RefList (as[idx := ra])] \<rparr>))
                   | None \<Rightarrow> Some (self\<lparr> store := h[rs := RefList (as @ [ra])] \<rparr>))
              | _ \<Rightarrow> None)
         | _ \<Rightarrow> None)"

text \<open>A new result object, as the constructor of the caller allocates it.\<close>

definition new_result :: "shared_state \<Rightarrow> ICPResult \<Rightarrow> addr \<times> shared_state" where
  "new_result self r = (length (store self), self\<lparr> store := store self @ [Leaf (ResultL r)] \<rparr>)"

text \<open>
  Writing objects, in general. \<open>writes_only R self self'\<close>: the references of the shared
  context stay as they are, objects may have been allocated, and of the objects that
  existed only those in \<open>R\<close> may have changed. A mutation of the live state is any number of
  writes to the objects of the live context and to objects allocated since.
\<close>

definition writes_only :: "addr set \<Rightarrow> shared_state \<Rightarrow> shared_state \<Rightarrow> bool" where
  "writes_only R self self' =
     (live self' = live self \<and> saved self' = saved self
      \<and> length (store self) \<le> length (store self')
      \<and> (\<forall>a < length (store self). a \<notin> R \<longrightarrow> store self' ! a = store self ! a))"

definition mutation_of_live :: "shared_state \<Rightarrow> shared_state \<Rightarrow> bool" where
  "mutation_of_live self self' = writes_only (reach_context (store self) (live self)) self self'"

subsection \<open>Well-formed contexts and copies\<close>

text \<open>
  A context is well-formed when its references lead to objects of the right kind. The
  remaining notions relate an object of a store \<open>h0\<close> to its copy in a later store \<open>h\<close>:
  the copy lies beyond \<open>h0\<close>, holds the same values, and refers to copies.
\<close>

definition wf_list :: "store \<Rightarrow> addr \<Rightarrow> bool" where
  "wf_list h a =
     (\<exists>as. lookup h a = Some (RefList as) \<and> (\<forall>x\<in>set as. \<exists>l. lookup h x = Some (Leaf l)))"

definition wf_conference :: "store \<Rightarrow> addr \<Rightarrow> bool" where
  "wf_conference h a =
     (\<exists>u n d l sp at co t. lookup h a = Some (ConferenceObj u n d l sp at co t)
        \<and> wf_list h sp \<and> wf_list h at \<and> wf_list h co)"

definition wf_context :: "store \<Rightarrow> addr \<Rightarrow> bool" where
  "wf_context h a =
     (\<exists>u cd rs ms es st ca v. lookup h a = Some (ContextObj u cd rs ms es st ca v)
        \<and> (\<forall>c. cd = Some c \<longrightarrow> wf_conference h c)
        \<and> wf_list h rs \<and> wf_list h ms \<and> (\<exists>l. lookup h es = Some (Leaf l)))"

definition copied_leaf :: "store \<Rightarrow> store \<Rightarrow> addr \<Rightarrow> addr \<Rightarrow> bool" where
  "copied_leaf h0 h a b =
     (\<exists>l. lookup h0 a = Some (Leaf l) \<and> lookup h b = Some (Leaf l) \<and> length h0 \<le> b)"

definition copied_list :: "store \<Rightarrow> store \<Rightarrow> addr \<Rightarrow> addr \<Rightarrow> bool" where
  "copied_list h0 h a b =
     (\<exists>as bs. lookup h0 a = Some (RefList as) \<and> lookup h b = Some (RefList bs)
        \<and> length h0 \<le> b \<and> list_all2 (copied_leaf h0 h) as bs)"

definition copied_conference :: "store \<Rightarrow> store \<Rightarrow> addr \<Rightarrow> addr \<Rightarrow> bool" where
  "copied_conference h0 h a b =
     (\<exists>u n d l sp at co t sp' at' co'.
        lookup h0 a = Some (ConferenceObj u n d l sp at co t)
        \<and> lookup h b = Some (ConferenceObj u n d l sp' at' co' t)
        \<and> length h0 \<le> b
        \<and> copied_list h0 h sp sp' \<and> copied_list h0 h at at' \<and> copied_list h0 h co co')"

definition copied_context :: "store \<Rightarrow> store \<Rightarrow> addr \<Rightarrow> addr \<Rightarrow> bool" where
  "copied_context h0 h a b =
     (\<exists>u cd rs ms es st ca v cd' rs' ms' es'.
        lookup h0 a = Some (ContextObj u cd rs ms es st ca v)
        \<and> lookup h b = Some (ContextObj u cd' rs' ms' es' st ca v)
        \<and> length h0 \<le> b
        \<and> (case cd of None \<Rightarrow> cd' = None
            | Some c \<Rightarrow> \<exists>c'. cd' = Some c' \<and> copied_conference h0 h c c')
        \<and> copied_list h0 h rs rs' \<and> copied_list h0 h ms ms' \<and> copied_leaf h0 h es es')"

definition memo_inv :: "store \<Rightarrow> memo \<Rightarrow> store \<Rightarrow> bool" where
  "memo_inv h0 m h =
     ((\<exists>ext. h = h0 @ ext)
      \<and> (\<forall>a b. m a = Some b \<longrightarrow> copied_leaf h0 h a b \<or> copied_list h0 h a b))"

subsection \<open>Scenario inputs\<close>

definition acme :: company_info where
 "acme = \<lparr> ci_name = Some ''Acme Industrial'', ci_industry = Some ''Industrial Equipment'', ci_size = Some 1200, ci_employee_count = None,
    ci_speakers = Some [\<lparr>contact_name = Some ''Ann'', contact_title = Some ''VP Field Service''\<rparr>], ci_attendees = Some [] \<rparr>"

definition unknown_retail :: company_info where
 "unknown_retail = \<lparr> ci_name = Some ''Unknown Co'', ci_industry = Some ''Retail'', ci_size = None, ci_employee_count = None,
    ci_speakers = Some [], ci_attendees = Some [] \<rparr>"


text \<open>
  The first organization again, its one contact known from the attendee list instead of the
  speaker list; the same with a further speaker whose title matches no keyword; and an
  organization of which nothing is known (the industry of a company record defaults to the
  empty string).
\<close>

definition acme_attendee :: company_info where
 "acme_attendee = \<lparr> ci_name = Some ''Acme Industrial'', ci_industry = Some ''Industrial Equipment'', ci_size = Some 1200, ci_employee_count = None,
    ci_speakers = Some [], ci_attendees = Some [\<lparr>contact_name = Some ''Ann'', contact_title = Some ''VP Field Service''\<rparr>] \<rparr>"

definition acme_both :: company_info where
 "acme_both = \<lparr> ci_name = Some ''Acme Industrial'', ci_industry = Some ''Industrial Equipment'', ci_size = Some 1200, ci_employee_count = None,
    ci_speakers = Some [\<lparr>contact_name = Some ''Bob'', contact_title = Some ''Engineer''\<rparr>],
    ci_attendees = Some [\<lparr>contact_name = Some ''Ann'', contact_title = Some ''VP Field Service''\<rparr>] \<rparr>"

definition unknown_co :: company_info where
 "unknown_co = \<lparr> ci_name = Some ''Unknown Co'', ci_industry = Some [], ci_size = None, ci_employee_count = None,
    ci_speakers = Some [], ci_attendees = Some [] \<rparr>"

definition scored :: "int \<Rightarrow> string \<Rightarrow> ICPResult" where
  "scored s fit =
     \<lparr> company_name = ''Acme Industrial'', score = s, fit_level = fit,
       reasoning = ''Industry match: Manufacturing'', industry_score = 30, title_score = 0,
       department_score = 0, size_score = 0, speaker_bonus = 0,
       validated_by = ''ICPValidatorAgent'', disputed = False, dispute_reason = [],
       final_score = None \<rparr>"




definition sample_reviewer :: QualityAgent where
  "sample_reviewer = \<lparr> quality_name = ''QualityAgent'', quality_gemini = None \<rparr>"

definition unexplained :: "int \<Rightarrow> result_data" where
  "unexplained s =
     \<lparr> rd_company_name = Some ''Unknown Co'', rd_score = Some s, rd_fit_level = Some ''High'',
       rd_reasoning = Some ''Unknown industry, no contacts'' \<rparr>"

definition insufficient :: "int \<Rightarrow> result_data" where
  "insufficient s =
     \<lparr> rd_company_name = Some ''Unknown Co'', rd_score = Some s, rd_fit_level = Some ''High'',
       rd_reasoning = Some ''Insufficient data for scoring'' \<rparr>"

definition mixed_case_context :: SharedContext where
  "mixed_case_context =
     \<lparr> agent_context =
         \<lparr> url = ''https://example.org'',
           conference_data = Some
             \<lparr> conference_url = ''https://example.org'', conference_name = ''Field Service'',
               conference_date = [], conference_location = [],
               speakers = [\<lparr> speaker_name = ''Ann'', speaker_title = ''VP Field Service'',
                              speaker_company = ''ACME'', bio = [], session_title = [],
                              linkedin_url = [] \<rparr>],
               attendees = [],
               companies = [\<lparr> co_name = ''Acme'', co_industry = ''Manufacturing'',
                               co_size = None, co_size_category = [], co_headquarters = [],
                               co_website = [], co_description = [], co_source = ''logo'',
                               co_speakers = [], co_attendees = [] \<rparr>],
               scraped_at = 0 \<rparr>,
           icp_results = [], messages = [], errors = [], status = ''initialized'',
           current_agent = [], verbose = False \<rparr>,
       checkpoints = Map.empty, start_time = 0 \<rparr>"

definition note_to :: "string \<Rightarrow> string \<Rightarrow> AgentMessage" where
  "note_to r a =
     \<lparr> message_id = ''m1'', sender = ''ICPValidatorAgent'', recipient = r,
       message_type = REQUEST, action = a, payload = [], requires_response = False,
       conversation_id = ''c1'', timestamp = 0 \<rparr>"

definition silent_runner :: "(unit, unit) runner" where
  "silent_runner h m w = (w, Inr None)"

definition sample_calls :: "unit bus_call list" where
  "sample_calls =
     [Send (note_to ''QualityAgent'' ''review_score''),
      Send (note_to ''EnricherAgent'' ''enrich_company''),
      Subscribe ''EnricherAgent'' (),
      Send (note_to ''EnricherAgent'' ''enrich_company''),
      Send (note_to ''QualityAgent'' ''dispute_resolved'')]"

definition checkpointed :: shared_state where
  "checkpointed =
     \<lparr> store = [Leaf (StringsL []), RefList [], RefList [],
                 ContextObj ''https://example.org'' None 2 1 0 ''initialized'' [] False,
                 RefList [], RefList [], Leaf (StringsL []),
                 ContextObj ''https://example.org'' None 4 5 6 ''initialized'' [] False],
       live = 3, saved = [''pre-validate'' \<mapsto> 7] \<rparr>"

definition validated :: shared_state where
  "validated =
     \<lparr> store = [Leaf (StringsL []), RefList [], RefList [8],
                 ContextObj ''https://example.org'' None 2 1 0 ''initialized'' [] False,
                 RefList [], RefList [], Leaf (StringsL []),
                 ContextObj ''https://example.org'' None 4 5 6 ''initialized'' [] False,
                 Leaf (ResultL (scored 40 ''Low''))],
       live = 3, saved = [''pre-validate'' \<mapsto> 7] \<rparr>"


section \<open>Verification: rule-based scoring\<close>

lemma weights_values:
  "industry_match (weights ICP_CRITERIA) = 30"
  "title_match (weights ICP_CRITERIA) = 25"
  "department_match (weights ICP_CRITERIA) = 20"
  "company_size (weights ICP_CRITERIA) = 15"
  "speaker_bonus_weight (weights ICP_CRITERIA) = 10"
  "min_company_size ICP_CRITERIA = 500"
  "preferred_company_size ICP_CRITERIA = 1000"
  by (simp_all add: ICP_CRITERIA_def)

lemma thresholds_values: "high ICP_THRESHOLDS = 75" "medium ICP_THRESHOLDS = 50"
  by (simp_all add: ICP_THRESHOLDS_def)

lemma find_Some_set: "find P xs = Some x \<Longrightarrow> x \<in> set xs \<and> P x"
  by (induction xs) (auto split: if_splits)

lemma industry_loop_fst:
  "fst (industry_loop ind ts (sc, ps)) =
     (if \<exists>t\<in>set ts. py_in (lower t) ind \<or> py_in ind (lower t)
      then industry_match (weights ICP_CRITERIA) else sc)"
  by (induction ts) auto

lemma industry_loop_snd:
  "\<not> (\<exists>t\<in>set ts. py_in (lower t) ind \<or> py_in ind (lower t)) \<Longrightarrow>
     snd (industry_loop ind ts (sc, ps)) = ps"
  by (induction ts) auto

lemma title_loop_fst:
  "sc \<le> 0 \<Longrightarrow> fst (title_loop sps (sc, ps)) =
     (if \<exists>sp\<in>set sps. \<exists>t\<in>set (target_titles ICP_CRITERIA). py_in (lower t) (lower (get_title sp))
      then title_match (weights ICP_CRITERIA) else sc)"
proof (induction sps arbitrary: ps)
  case Nil
  then show ?case by simp
next
  case (Cons sp sps)
  show ?case
  proof (cases "find (\<lambda>t. py_in (lower t) (lower (get_title sp))) (target_titles ICP_CRITERIA)")
    case None
    then have no: "\<not> (\<exists>t\<in>set (target_titles ICP_CRITERIA). py_in (lower t) (lower (get_title sp)))"
      by (simp add: find_None_iff)
    from None Cons no show ?thesis by (simp add: Let_def)
  next
    case (Some t)
    then have yes: "\<exists>t\<in>set (target_titles ICP_CRITERIA). py_in (lower t) (lower (get_title sp))"
      using find_Some_set by fastforce
    from Some yes show ?thesis by (simp add: Let_def weights_values)
  qed
qed

lemma title_loop_snd:
  "sc \<le> 0 \<Longrightarrow> \<not> (\<exists>sp\<in>set sps. \<exists>t\<in>set (target_titles ICP_CRITERIA). py_in (lower t) (lower (get_title sp))) \<Longrightarrow>
     snd (title_loop sps (sc, ps)) = ps"
proof (induction sps arbitrary: ps)
  case Nil
  then show ?case by simp
next
  case (Cons sp sps)
  then have "find (\<lambda>t. py_in (lower t) (lower (get_title sp))) (target_titles ICP_CRITERIA) = None"
    by (simp add: find_None_iff)
  with Cons show ?case by (simp add: Let_def)
qed

lemma department_loop_fst:
  "sc \<le> 0 \<Longrightarrow> fst (department_loop sps (sc, ps)) =
     (if \<exists>sp\<in>set sps. \<exists>t\<in>set (target_departments ICP_CRITERIA). py_in (lower t) (lower (get_title sp))
      then department_match (weights ICP_CRITERIA) else sc)"
proof (induction sps arbitrary: ps)
  case Nil
  then show ?case by simp
next
  case (Cons sp sps)
  show ?case
  proof (cases "find (\<lambda>t. py_in (lower t) (lower (get_title sp))) (target_departments ICP_CRITERIA)")
    case None
    then have no: "\<not> (\<exists>t\<in>set (target_departments ICP_CRITERIA). py_in (lower t) (lower (get_title sp)))"
      by (simp add: find_None_iff)
    from None Cons no show ?thesis by (simp add: Let_def)
  next
    case (Some t)
    then have yes: "\<exists>t\<in>set (target_departments ICP_CRITERIA). py_in (lower t) (lower (get_title sp))"
      using find_Some_set by fastforce
    from Some yes show ?thesis by (simp add: Let_def weights_values)
  qed
qed

lemma department_loop_snd:
  "sc \<le> 0 \<Longrightarrow> \<not> (\<exists>sp\<in>set sps. \<exists>t\<in>set (target_departments ICP_CRITERIA). py_in (lower t) (lower (get_title sp))) \<Longrightarrow>
     snd (department_loop sps (sc, ps)) = ps"
proof (induction sps arbitrary: ps)
  case Nil
  then show ?case by simp
next
  case (Cons sp sps)
  then have "find (\<lambda>t. py_in (lower t) (lower (get_title sp))) (target_departments ICP_CRITERIA) = None"
    by (simp add: find_None_iff)
  with Cons show ?case by (simp add: Let_def)
qed

lemma size_step_fst: "fst (size_step (get_company_size info) ps) = spec_size_score info"
  by (auto simp: size_step_def spec_size_score_def weights_values split: option.splits)

lemma size_step_snd: "spec_size_score info = 0 \<Longrightarrow> snd (size_step (get_company_size info) ps) = ps"
  by (auto simp: size_step_def spec_size_score_def weights_values split: option.splits if_splits)

lemma speaker_step_fst: "fst (speaker_step sps ps) = (if sps \<noteq> [] then speaker_bonus_weight (weights ICP_CRITERIA) else 0)"
  by (simp add: speaker_step_def)

lemma spec_size_score_range: "0 \<le> spec_size_score info \<and> spec_size_score info \<le> 15"
  by (auto simp: spec_size_score_def weights_values split: option.splits)


lemma scenario_keywords:
  "''Industrial Equipment'' \<in> set (target_industries ICP_CRITERIA)"
  "py_in (lower ''Industrial Equipment'') (lower ''Industrial Equipment'')"
  "''VP'' \<in> set (target_titles ICP_CRITERIA)"
  "py_in (lower ''VP'') (lower ''VP Field Service'')"
  "''Field Service'' \<in> set (target_departments ICP_CRITERIA)"
  "py_in (lower ''Field Service'') (lower ''VP Field Service'')"
  by code_simp+

lemma rule_based_validation_facts:
  "\<exists>r. rule_based_validation self name info = Inr r
      \<and> 0 \<le> score r \<and> score r \<le> 100 \<and> final_score r = None
      \<and> score r = industry_score r + title_score r + department_score r + size_score r + speaker_bonus r
      \<and> industry_score r = (if spec_industry_match info then industry_match (weights ICP_CRITERIA) else 0)
      \<and> title_score r = (if matches_title (get_speakers info) then title_match (weights ICP_CRITERIA) else 0)
      \<and> department_score r = (if matches_department (get_speakers info) then department_match (weights ICP_CRITERIA) else 0)
      \<and> size_score r = spec_size_score info
      \<and> speaker_bonus r = (if get_speakers info \<noteq> [] then speaker_bonus_weight (weights ICP_CRITERIA) else 0)
      \<and> fit_level r = spec_fit_level (score r)
      \<and> (\<not> spec_industry_match info \<and> \<not> matches_title (get_speakers info) \<and> \<not> matches_department (get_speakers info)
           \<and> spec_size_score info = 0 \<and> get_speakers info = []
         \<longrightarrow> score r = 0 \<and> fit_level r = ''Low'' \<and> reasoning r = ''Insufficient data for scoring'')
      \<and> (ci_industry info = Some ''Industrial Equipment''
           \<and> (\<exists>c. get_speakers info = [c] \<and> contact_title c = Some ''VP Field Service'')
           \<and> get_company_size info = Some 1200
         \<longrightarrow> industry_score r = 30 \<and> title_score r = 25 \<and> department_score r = 20
             \<and> size_score r = 15 \<and> speaker_bonus r = 10 \<and> score r = 100 \<and> fit_level r = ''High'')"
proof -
  define ind where "ind = lower (get_industry info)"
  define sps where "sps = get_speakers info"
  define a1 where "a1 = industry_loop ind (target_industries ICP_CRITERIA) (0, [])"
  define a2 where "a2 = title_loop sps (0, snd a1)"
  define a3 where "a3 = department_loop sps (0, snd a2)"
  define a4 where "a4 = size_step (get_company_size info) (snd a3)"
  define a5 where "a5 = speaker_step sps (snd a4)"
  define total where "total = fst a1 + fst a2 + fst a3 + fst a4 + fst a5"
  define R where "R = \<lparr>
       company_name = name, score = total,
       fit_level = (if total \<ge> high ICP_THRESHOLDS then ''High''
                    else if total \<ge> medium ICP_THRESHOLDS then ''Medium'' else ''Low''),
       reasoning = (if snd a5 \<noteq> [] then join ''; '' (snd a5) else ''Insufficient data for scoring''),
       industry_score = fst a1, title_score = fst a2, department_score = fst a3,
       size_score = fst a4, speaker_bonus = fst a5, validated_by = self,
       disputed = False, dispute_reason = [], final_score = None \<rparr>"
  have unfold: "rule_based_validation self name info = ICPResult_init R"
    by (simp add: rule_based_validation_def Let_def split_def R_def total_def
          a1_def a2_def a3_def a4_def a5_def ind_def sps_def)
  have f1: "fst a1 = (if spec_industry_match info then industry_match (weights ICP_CRITERIA) else 0)"
    by (simp add: a1_def ind_def industry_loop_fst spec_industry_match_def matches_industry_def)
  have f2: "fst a2 = (if matches_title (get_speakers info) then title_match (weights ICP_CRITERIA) else 0)"
    by (simp add: a2_def sps_def title_loop_fst matches_title_def)
  have f3: "fst a3 = (if matches_department (get_speakers info) then department_match (weights ICP_CRITERIA) else 0)"
    by (simp add: a3_def sps_def department_loop_fst matches_department_def)
  have f4: "fst a4 = spec_size_score info"
    by (simp add: a4_def size_step_fst)
  have f5: "fst a5 = (if get_speakers info \<noteq> [] then speaker_bonus_weight (weights ICP_CRITERIA) else 0)"
    by (simp add: a5_def sps_def speaker_step_fst)
  have range: "0 \<le> total \<and> total \<le> 100"
    using spec_size_score_range [of info]
    by (simp add: total_def f1 f2 f3 f4 f5 weights_values)
  have res: "rule_based_validation self name info = Inr R"
    using range by (simp add: unfold ICPResult_init_def R_def)
  have none: "score R = 0 \<and> fit_level R = ''Low'' \<and> reasoning R = ''Insufficient data for scoring''"
    if h: "\<not> spec_industry_match info" "\<not> matches_title (get_speakers info)" "\<not> matches_department (get_speakers info)"
          "spec_size_score info = 0" "get_speakers info = []"
  proof -
    have s1: "snd a1 = []"
      using h(1) by (simp add: a1_def ind_def spec_industry_match_def matches_industry_def industry_loop_snd)
    have s2: "snd a2 = []"
      using h(2) s1 by (simp add: a2_def sps_def matches_title_def title_loop_snd)
    have s3: "snd a3 = []"
      using h(3) s2 by (simp add: a3_def sps_def matches_department_def department_loop_snd)
    have s4: "snd a4 = []"
      using h(4) s3 by (simp add: a4_def size_step_snd)
    have s5: "snd a5 = []"
      using h(5) s4 by (simp add: a5_def sps_def speaker_step_def)
    have t0: "total = 0"
      using h by (simp add: total_def f1 f2 f3 f4 f5)
    show ?thesis
      by (simp add: R_def t0 s5 thresholds_values)
  qed
  have comps: "score R = industry_score R + title_score R + department_score R + size_score R + speaker_bonus R"
    by (simp add: R_def total_def)
  have fit: "fit_level R = spec_fit_level (score R)"
    by (simp add: R_def spec_fit_level_def)
  have c1: "industry_score R = (if spec_industry_match info then industry_match (weights ICP_CRITERIA) else 0)"
    by (simp add: R_def f1)
  have c2: "title_score R = (if matches_title (get_speakers info) then title_match (weights ICP_CRITERIA) else 0)"
    by (simp add: R_def f2)
  have c3: "department_score R = (if matches_department (get_speakers info) then department_match (weights ICP_CRITERIA) else 0)"
    by (simp add: R_def f3)
  have c4: "size_score R = spec_size_score info"
    by (simp add: R_def f4)
  have c5: "speaker_bonus R = (if get_speakers info \<noteq> [] then speaker_bonus_weight (weights ICP_CRITERIA) else 0)"
    by (simp add: R_def f5)
  have scen: "industry_score R = 30 \<and> title_score R = 25 \<and> department_score R = 20
             \<and> size_score R = 15 \<and> speaker_bonus R = 10 \<and> score R = 100 \<and> fit_level R = ''High''"
    if h: "ci_industry info = Some ''Industrial Equipment''"
          "\<exists>c. get_speakers info = [c] \<and> contact_title c = Some ''VP Field Service''"
          "get_company_size info = Some 1200"
  proof -
    have m1: "spec_industry_match info"
      using h(1) scenario_keywords(1,2) by (auto simp: spec_industry_match_def matches_industry_def get_industry_def)
    have m2: "matches_title (get_speakers info)"
      using h(2) scenario_keywords(3,4) by (auto simp: matches_title_def get_title_def)
    have m3: "matches_department (get_speakers info)"
      using h(2) scenario_keywords(5,6) by (auto simp: matches_department_def get_title_def)
    have m4: "spec_size_score info = 15"
      using h(3) by (simp add: spec_size_score_def weights_values)
    have m5: "get_speakers info \<noteq> []"
      using h(2) by auto
    have "total = 100"
      by (simp add: total_def f1 f2 f3 f4 f5 m1 m2 m3 m4 m5 weights_values)
    then show ?thesis
      by (simp add: R_def f1 f2 f3 f4 f5 m1 m2 m3 m4 m5 weights_values thresholds_values)
  qed
  have extra: "0 \<le> score R \<and> score R \<le> 100 \<and> final_score R = None"
    using range by (simp add: R_def)
  from res extra comps c1 c2 c3 c4 c5 fit none scen show ?thesis
    by blast
qed

text \<open>
  Where the detail record lists no attendee, the contacts of the organization are its
  speakers, and the scoring is the one of the specification: the total is the sum of the
  five components, each the full weight exactly when its rule matches, and the fit level
  follows from the two thresholds.
\<close>

lemma rule_based_validation_no_attendees:
  assumes "get_attendees info = []"
  shows "\<exists>r. rule_based_validation self name info = Inr r
      \<and> score r = industry_score r + title_score r + department_score r + size_score r + speaker_bonus r
      \<and> industry_score r = (if spec_industry_match info then industry_match (weights ICP_CRITERIA) else 0)
      \<and> title_score r = (if spec_title_match info then title_match (weights ICP_CRITERIA) else 0)
      \<and> department_score r = (if spec_department_match info then department_match (weights ICP_CRITERIA) else 0)
      \<and> size_score r = spec_size_score info
      \<and> speaker_bonus r = spec_speaker_bonus info
      \<and> score r = spec_score info
      \<and> fit_level r = spec_fit_level (spec_score info)"
proof -
  have c: "contacts info = get_speakers info"
    using assms by (simp add: contacts_def)
  from rule_based_validation_facts [of self name info] obtain r where
    r: "rule_based_validation self name info = Inr r"
       "score r = industry_score r + title_score r + department_score r + size_score r + speaker_bonus r"
       "industry_score r = (if spec_industry_match info then industry_match (weights ICP_CRITERIA) else 0)"
       "title_score r = (if matches_title (get_speakers info) then title_match (weights ICP_CRITERIA) else 0)"
       "department_score r = (if matches_department (get_speakers info) then department_match (weights ICP_CRITERIA) else 0)"
       "size_score r = spec_size_score info"
       "speaker_bonus r = (if get_speakers info \<noteq> [] then speaker_bonus_weight (weights ICP_CRITERIA) else 0)"
       "fit_level r = spec_fit_level (score r)"
    by blast
  have t: "title_score r = (if spec_title_match info then title_match (weights ICP_CRITERIA) else 0)"
    using r(4) by (simp add: spec_title_match_def c)
  have d: "department_score r = (if spec_department_match info then department_match (weights ICP_CRITERIA) else 0)"
    using r(5) by (simp add: spec_department_match_def c)
  have b: "speaker_bonus r = spec_speaker_bonus info"
    using r(7) by (simp add: spec_speaker_bonus_def c)
  have s: "score r = spec_score info"
    using r(2) r(3) r(6) t d b by (simp add: spec_score_def)
  have f: "fit_level r = spec_fit_level (spec_score info)"
    using r(8) s by simp
  from r(1) r(2) r(3) t d r(6) b s f show ?thesis
    by blast
qed

lemma acme_scenario:
  "\<exists>r. rule_based_validation ''ICPValidatorAgent'' ''Acme Industrial'' acme = Inr r
      \<and> score r = 100 \<and> fit_level r = ''High''"
proof -
  have h: "ci_industry acme = Some ''Industrial Equipment''
           \<and> (\<exists>c. get_speakers acme = [c] \<and> contact_title c = Some ''VP Field Service'')
           \<and> get_company_size acme = Some 1200"
    by (simp add: acme_def get_speakers_def get_company_size_def)
  from rule_based_validation_facts [of "''ICPValidatorAgent''" "''Acme Industrial''" acme] h
  show ?thesis
    by blast
qed

text \<open>
  Claim C3. The rule-based fallback scoring returns the sum of five components, each the
  full weight when its rule matches; an organization with industry "Industrial Equipment",
  one contact titled "VP Field Service" and 1200 employees scores 30 + 25 + 20 + 15 + 10 = 100
  and is a High fit. The code breaks this where the contact is an attendee. The detail
  record lists the attendees of the organization beside its speakers, and the comment on
  the title loop says \<^verbatim>\<open>check speakers and attendees\<close>, but the title loop, the
  department loop and the bonus read the \<^verbatim>\<open>speakers\<close> list only. With the one contact
  an attendee the rules of the specification give 100, and the code returns 45 and a Low
  fit: no title, no department and no bonus. With a further speaker whose title matches
  nothing the bonus is earned, the rules still give 100, and the code returns 55.
\<close>

theorem rule_based_validation_attendee_contact:
  "contacts acme_attendee = [\<lparr>contact_name = Some ''Ann'', contact_title = Some ''VP Field Service''\<rparr>]
   \<and> get_industry acme_attendee = ''Industrial Equipment''
   \<and> get_company_size acme_attendee = Some 1200
   \<and> spec_score acme_attendee = 100
   \<and> spec_fit_level (spec_score acme_attendee) = ''High''
   \<and> rule_based_validation ''ICPValidatorAgent'' ''Acme Industrial'' acme_attendee =
       Inr \<lparr> company_name = ''Acme Industrial'', score = 45, fit_level = ''Low'',
             reasoning = ''Industry match: Industrial Equipment; Enterprise size: 1200+ employees'',
             industry_score = 30, title_score = 0, department_score = 0, size_score = 15,
             speaker_bonus = 0, validated_by = ''ICPValidatorAgent'', disputed = False,
             dispute_reason = [], final_score = None \<rparr>
   \<and> spec_score acme_both = 100
   \<and> rule_based_validation ''ICPValidatorAgent'' ''Acme Industrial'' acme_both =
       Inr \<lparr> company_name = ''Acme Industrial'', score = 55, fit_level = ''Medium'',
             reasoning = ''Industry match: Industrial Equipment; Enterprise size: 1200+ employees; Has 1 speaker(s) at conference'',
             industry_score = 30, title_score = 0, department_score = 0, size_score = 15,
             speaker_bonus = 10, validated_by = ''ICPValidatorAgent'', disputed = False,
             dispute_reason = [], final_score = None \<rparr>"
  by code_simp

text \<open>
  When no rule fires the score is 0, the fit is Low and the reasoning says that the data
  is insufficient (the first implication of \<open>rule_based_validation_facts\<close>); so it is for an
  organization in retail without contacts and without a size.
\<close>

lemma unknown_retail_facts:
  "\<not> spec_industry_match unknown_retail" "\<not> matches_title (get_speakers unknown_retail)"
  "\<not> matches_department (get_speakers unknown_retail)" "spec_size_score unknown_retail = 0"
  "get_speakers unknown_retail = []"
  by code_simp+

lemma unknown_retail_scenario:
  "\<exists>r. rule_based_validation ''ICPValidatorAgent'' ''Unknown Co'' unknown_retail = Inr r
      \<and> score r = 0 \<and> fit_level r = ''Low'' \<and> reasoning r = ''Insufficient data for scoring''"
  using rule_based_validation_facts [of "''ICPValidatorAgent''" "''Unknown Co''" unknown_retail]
    unknown_retail_facts
  by blast

text \<open>
  A remark on the industry rule: the match runs in both directions, and the empty string
  occurs in every string. An organization without an industry (the default of a company
  record is the empty string, and a missing key reads as the empty string) therefore
  matches the first target industry and earns the industry weight: with no contact and no
  size it scores 30, not 0.
\<close>

lemma py_in_empty: "py_in [] s"
  by (induction s) simp_all

lemma missing_industry_matches:
  assumes "get_industry info = []"
  shows "spec_industry_match info"
proof -
  have "''Manufacturing'' \<in> set (target_industries ICP_CRITERIA)"
    by (simp add: ICP_CRITERIA_def)
  moreover have "py_in (lower (get_industry info)) (lower ''Manufacturing'')"
    using assms by (simp add: lower_def py_in_empty)
  ultimately show ?thesis
    unfolding spec_industry_match_def matches_industry_def by blast
qed

lemma missing_industry_scenario:
  "rule_based_validation ''ICPValidatorAgent'' ''Unknown Co'' unknown_co =
     Inr \<lparr> company_name = ''Unknown Co'', score = 30, fit_level = ''Low'',
           reasoning = ''Industry match: Manufacturing'', industry_score = 30, title_score = 0,
           department_score = 0, size_score = 0, speaker_bonus = 0,
           validated_by = ''ICPValidatorAgent'', disputed = False, dispute_reason = [],
           final_score = None \<rparr>"
  by code_simp

section \<open>Verification: dispute resolution without an answer of the oracle\<close>

lemma ICPResult_copy:
  "\<lparr> company_name = company_name original, score = score original,
     fit_level = fit_level original, reasoning = reasoning original,
     industry_score = industry_score original, title_score = title_score original,
     department_score = department_score original, size_score = size_score original,
     speaker_bonus = speaker_bonus original, validated_by = validated_by original,
     disputed = True, dispute_reason = why, final_score = None \<rparr>
   = original\<lparr> disputed := True, dispute_reason := why, final_score := None \<rparr>"
  by simp

lemma handle_dispute_fallback_eq:
  assumes fb: "resolution_without_oracle self original why suggested"
    and rng: "0 \<le> score original" "score original \<le> 100"
  shows "handle_dispute self original why suggested =
     (let revised1 = accept_suggested original
            (original\<lparr> disputed := True, dispute_reason := why, final_score := None \<rparr>) suggested;
          revised2 = revised1\<lparr> fit_level := spec_fit_level (score revised1) \<rparr>
      in Inr (revised2, self\<lparr> pending_validations :=
                 (pending_validations self)(company_name original \<mapsto> revised2) \<rparr>))"
proof (cases "gemini self")
  case None
  then show ?thesis
    using rng unfolding handle_dispute_def ICPResult_copy
    by (simp add: ICPResult_init_def Let_def spec_fit_level_def resolve_step_def)
next
  case (Some g)
  with fb obtain e where "resolve_dispute g original why suggested (company_name original) = Inl e"
    by (auto simp: resolution_without_oracle_def isl_def)
  with Some show ?thesis
    using rng unfolding handle_dispute_def ICPResult_copy
    by (simp add: ICPResult_init_def Let_def spec_fit_level_def resolve_step_def)
qed

text \<open>
  Claim C1, as amended. When no oracle is configured, or the oracle call raised, a dispute
  on a record whose score the constructor accepts is always resolved, and the resulting
  effective score differs from the original score by at most 20 points. A suggested score
  other than 0 is accepted exactly when it differs from the original by at most 20 points;
  an absent suggestion, and every suggestion further away, keeps the original score and
  leaves \<open>final_score\<close> unset; a score is only ever accepted within 20 points. In every
  case the fit level is recomputed from the two thresholds: High from 75, Medium from 50,
  Low below.
\<close>

theorem handle_dispute_bounded:
  assumes fb: "resolution_without_oracle self original why suggested"
    and rng: "0 \<le> score original" "score original \<le> 100"
  shows "\<exists>revised self'. handle_dispute self original why suggested = Inr (revised, self')
      \<and> \<bar>effective_score revised - score original\<bar> \<le> 20
      \<and> (\<forall>s. suggested = Some s \<and> s \<noteq> 0 \<longrightarrow>
            (if \<bar>s - score original\<bar> \<le> 20
             then score revised = s \<and> final_score revised = Some s
             else score revised = score original \<and> final_score revised = None))
      \<and> (suggested = None \<longrightarrow> score revised = score original \<and> final_score revised = None)
      \<and> (final_score revised \<noteq> None \<longrightarrow>
            (\<exists>s. suggested = Some s \<and> \<bar>s - score original\<bar> \<le> 20 \<and> score revised = s))
      \<and> fit_level revised = spec_fit_level (score revised)"
  unfolding handle_dispute_fallback_eq [OF fb rng]
  by (auto simp: Let_def accept_suggested_def effective_score_def get_or_def split: option.splits)

lemma no_oracle_fallback: "resolution_without_oracle (ICPValidatorAgent_init None) original why suggested"
  by (simp add: resolution_without_oracle_def ICPValidatorAgent_init_def)

theorem handle_dispute_bounded_witness:
  "\<exists>revised self'.
      handle_dispute (ICPValidatorAgent_init None) (scored 40 ''Low'')
        ''Company has 1 speaker(s) but score is only 40'' (Some 55) = Inr (revised, self')
      \<and> score revised = 55 \<and> final_score revised = Some 55 \<and> fit_level revised = ''Medium''"
  using handle_dispute_bounded [OF no_oracle_fallback, of "scored 40 ''Low''"
      "''Company has 1 speaker(s) but score is only 40''" "Some 55"]
  by (auto simp: scored_def spec_fit_level_def ICP_THRESHOLDS_def)

text \<open>
  Claim C1 as first stated fails for the suggestion 0: it lies within 20 points of the
  original score 10, and \<^verbatim>\<open>_handle_dispute\<close> keeps the original.
\<close>

theorem handle_dispute_zero_counterexample:
  "\<not> isl (handle_dispute (ICPValidatorAgent_init None) (scored 10 ''Low'') ''Too low'' (Some 0))
   \<and> \<bar>0 - score (scored 10 ''Low'')\<bar> \<le> 20
   \<and> score (fst (projr (handle_dispute (ICPValidatorAgent_init None) (scored 10 ''Low'')
                           ''Too low'' (Some 0)))) = 10
   \<and> final_score (fst (projr (handle_dispute (ICPValidatorAgent_init None) (scored 10 ''Low'')
                           ''Too low'' (Some 0)))) = None"
  by (simp add: handle_dispute_fallback_eq [OF no_oracle_fallback] scored_def Let_def
        accept_suggested_def)

text \<open>
  Claim C9. The acceptance test of the fallback is on the truth value of the suggestion:
  a suggested score of 0 and an absent suggestion are never accepted. The original score
  is kept and \<open>final_score\<close> stays unset, for every original score the constructor accepts,
  among them the scores up to 20, for which the distance to 0 would allow acceptance.
\<close>

theorem handle_dispute_falsy_suggestion:
  assumes fb: "resolution_without_oracle self original why suggested"
    and rng: "0 \<le> score original" "score original \<le> 100"
    and falsy: "suggested = Some 0 \<or> suggested = None"
  shows "\<exists>revised self'. handle_dispute self original why suggested = Inr (revised, self')
      \<and> score revised = score original \<and> final_score revised = None
      \<and> effective_score revised = score original"
  using falsy unfolding handle_dispute_fallback_eq [OF fb rng]
  by (auto simp: Let_def accept_suggested_def effective_score_def get_or_def)

theorem handle_dispute_falsy_suggestion_witness:
  "score (scored 10 ''Low'') \<le> 20 \<and> \<bar>0 - score (scored 10 ''Low'')\<bar> \<le> 20
   \<and> (\<exists>revised self'.
        handle_dispute (ICPValidatorAgent_init None) (scored 10 ''Low'') ''Too low'' (Some 0)
          = Inr (revised, self')
        \<and> score revised = 10 \<and> final_score revised = None)"
  using handle_dispute_falsy_suggestion [OF no_oracle_fallback, of "scored 10 ''Low''" "Some 0" "''Too low''"]
  by (auto simp: scored_def)

section \<open>Verification: score range and fit level\<close>




text \<open>
  An answer of the oracle whose score is in range is adopted as it is, with the fit level
  it names (\<^verbatim>\<open>Medium\<close> when it names none).
\<close>

lemma validate_company_oracle:
  assumes "gemini self = Some g"
    and "validate_icp g info ICP_CRITERIA = Inr result"
    and "0 \<le> get_or (resp_score result) 50" and "get_or (resp_score result) 50 \<le> 100"
  shows "\<exists>r. validate_company self name info = Inr r
           \<and> score r = get_or (resp_score result) 50
           \<and> fit_level r = get_or (resp_fit_level result) ''Medium''"
  using assms by (simp add: validate_company_def ICPResult_init_def)












section \<open>Verification: the quality reviewer\<close>

lemma list_ex_set: "list_ex P xs = (\<exists>x\<in>set xs. P x)"
  by (simp add: list_ex_iff)

text \<open>
  Claim C4, as the code has it. The review of a score record evaluates four rules in strict
  priority order, the first match winning. The rules look at the speakers of the
  organization, the entries of the \<^verbatim>\<open>speakers\<close> list of the detail record, and at no
  other contact; the fourth rule asks for the text \<^verbatim>\<open>Unknown\<close>, in this spelling, in the
  reasoning.
  (1) At least one speaker and a score below 60: dispute, suggesting \<open>min (score + 15) 85\<close>.
  (2) A speaker with a senior title and a score below 70: \<open>min (score + 20) 90\<close>.
  (3) A speaker with a field-service title and a score below 75: \<open>min (score + 15) 92\<close>.
  (4) A score from 80 on, no speaker, and a reasoning that contains \<^verbatim>\<open>Unknown\<close>:
  \<open>max (score - 15) 50\<close>. When no rule fires and no oracle applies (none is configured,
  or the score is below 50) the score is confirmed: no dispute, no suggestion.
\<close>

theorem review_score_data_priority:
  fixes self :: QualityAgent and rd :: result_data and info :: company_info
  shows "let sc = get_or (rd_score rd) 0;
           sps = get_speakers info;
           rv = review_score_data self rd info;
           senior = (\<exists>sp\<in>set sps. \<exists>st\<in>set senior_titles. py_in (lower st) (lower (get_title sp)));
           fs = (\<exists>sp\<in>set sps. \<exists>kw\<in>set field_service_keywords. py_in kw (lower (get_title sp)));
           rule1 = (sps \<noteq> [] \<and> sc < 60);
           rule2 = (senior \<and> sc < 70);
           rule3 = (fs \<and> sc < 75);
           rule4 = (sc \<ge> 80 \<and> sps = [] \<and> py_in ''Unknown'' (get_or (rd_reasoning rd) []))
       in (rule1 \<longrightarrow> should_dispute rv \<and> suggested_score rv = Some (min (sc + 15) 85))
        \<and> (\<not> rule1 \<and> rule2 \<longrightarrow> should_dispute rv \<and> suggested_score rv = Some (min (sc + 20) 90))
        \<and> (\<not> rule1 \<and> \<not> rule2 \<and> rule3 \<longrightarrow>
              should_dispute rv \<and> suggested_score rv = Some (min (sc + 15) 92))
        \<and> (\<not> rule1 \<and> \<not> rule2 \<and> \<not> rule3 \<and> rule4 \<longrightarrow>
              should_dispute rv \<and> suggested_score rv = Some (max (sc - 15) 50))
        \<and> (\<not> rule1 \<and> \<not> rule2 \<and> \<not> rule3 \<and> \<not> rule4
              \<and> (quality_gemini self = None \<or> sc < 50) \<longrightarrow>
              \<not> should_dispute rv \<and> suggested_score rv = None \<and> original_score rv = Some sc)"
  by (simp add: Let_def review_score_data_def has_senior_speaker_def has_fs_title_def list_ex_set
        split: option.splits)

lemma acme_contacts:
  "get_speakers acme \<noteq> []"
  "\<exists>sp\<in>set (get_speakers acme). \<exists>st\<in>set senior_titles. py_in (lower st) (lower (get_title sp))"
  "\<exists>sp\<in>set (get_speakers acme). \<exists>kw\<in>set field_service_keywords. py_in kw (lower (get_title sp))"
  "get_speakers unknown_retail = []"
  "py_in ''Unknown'' (get_or (rd_reasoning (unexplained 85)) [])"
  "\<not> py_in ''Unknown'' (get_or (rd_reasoning (model_dump (scored 85 ''High''))) [])"
  by code_simp+

lemma sample_scores:
  "get_or (rd_score (model_dump (scored s fit))) 0 = s"
  "get_or (rd_score (unexplained s)) 0 = s"
  by (simp_all add: model_dump_def scored_def unexplained_def get_or_def)

theorem review_score_data_priority_witness:
  "suggested_score (review_score_data sample_reviewer (model_dump (scored 40 ''Low'')) acme) = Some 55
   \<and> suggested_score (review_score_data sample_reviewer (model_dump (scored 65 ''Medium'')) acme) = Some 85
   \<and> suggested_score (review_score_data sample_reviewer (model_dump (scored 72 ''Medium'')) acme) = Some 87
   \<and> suggested_score (review_score_data sample_reviewer (unexplained 85) unknown_retail) = Some 70
   \<and> \<not> should_dispute (review_score_data sample_reviewer (model_dump (scored 85 ''High'')) unknown_retail)"
proof -
  have g: "quality_gemini sample_reviewer = None"
    by (simp add: sample_reviewer_def)
  have r1: "suggested_score (review_score_data sample_reviewer (model_dump (scored 40 ''Low'')) acme) = Some 55"
    using review_score_data_priority [of "model_dump (scored 40 ''Low'')" acme sample_reviewer]
      acme_contacts(1)
    by (simp add: Let_def sample_scores)
  have r2: "suggested_score (review_score_data sample_reviewer (model_dump (scored 65 ''Medium'')) acme) = Some 85"
    using review_score_data_priority [of "model_dump (scored 65 ''Medium'')" acme sample_reviewer]
      acme_contacts(1,2)
    by (simp add: Let_def sample_scores)
  have r3: "suggested_score (review_score_data sample_reviewer (model_dump (scored 72 ''Medium'')) acme) = Some 87"
    using review_score_data_priority [of "model_dump (scored 72 ''Medium'')" acme sample_reviewer]
      acme_contacts(1,2,3)
    by (simp add: Let_def sample_scores)
  have r4: "suggested_score (review_score_data sample_reviewer (unexplained 85) unknown_retail) = Some 70"
    using review_score_data_priority [of "unexplained 85" unknown_retail sample_reviewer]
      acme_contacts(4,5)
    by (simp add: Let_def sample_scores)
  have r5: "\<not> should_dispute (review_score_data sample_reviewer (model_dump (scored 85 ''High'')) unknown_retail)"
    using review_score_data_priority [of "model_dump (scored 85 ''High'')" unknown_retail sample_reviewer]
      acme_contacts(4,6) g
    by (simp add: Let_def sample_scores)
  from r1 r2 r3 r4 r5 show ?thesis by blast
qed

text \<open>
  Claim C4, as the specification words it, fails on the code in both readings that the
  code narrows. An organization whose one contact is an attendee, scored 40: the first
  rule of the specification fires and suggests 55, the code confirms the score. The same
  organization scored 85 with a reasoning that says "Unknown": it has a contact, so no rule
  of the specification fires, but the code sees no speaker and disputes with 70. An
  organization without contacts scored 85 with the reasoning "Insufficient data for
  scoring": the fourth rule of the specification fires and suggests 70, the code confirms
  the score.
\<close>

theorem review_score_data_priority_counterexample:
  "contacts acme_attendee \<noteq> []
   \<and> spec_review (model_dump (scored 40 ''Low'')) acme_attendee = Some 55
   \<and> \<not> should_dispute (review_score_data sample_reviewer (model_dump (scored 40 ''Low'')) acme_attendee)
   \<and> suggested_score (review_score_data sample_reviewer (model_dump (scored 40 ''Low'')) acme_attendee) = None
   \<and> spec_review (unexplained 85) acme_attendee = None
   \<and> should_dispute (review_score_data sample_reviewer (unexplained 85) acme_attendee)
   \<and> suggested_score (review_score_data sample_reviewer (unexplained 85) acme_attendee) = Some 70
   \<and> contacts unknown_retail = []
   \<and> spec_review (insufficient 85) unknown_retail = Some 70
   \<and> \<not> should_dispute (review_score_data sample_reviewer (insufficient 85) unknown_retail)
   \<and> suggested_score (review_score_data sample_reviewer (insufficient 85) unknown_retail) = None"
  by code_simp

text \<open>
  Where the organization has no attendee and the reasoning says "unknown" or "insufficient"
  only in the spelling \<^verbatim>\<open>Unknown\<close>, the rules of the specification and the code agree.
\<close>

lemma review_score_data_spec:
  assumes "get_attendees info = []"
    and "indicates_insufficient (get_or (rd_reasoning rd) []) = py_in ''Unknown'' (get_or (rd_reasoning rd) [])"
    and "quality_gemini self = None \<or> get_or (rd_score rd) 0 < 50"
  shows "suggested_score (review_score_data self rd info) = spec_review rd info
       \<and> should_dispute (review_score_data self rd info) = (spec_review rd info \<noteq> None)"
proof -
  have c: "contacts info = get_speakers info"
    using assms(1) by (simp add: contacts_def)
  show ?thesis
    using assms(2,3)
    by (auto simp: review_score_data_def spec_review_def c Let_def split: option.splits)
qed

section \<open>Verification: the shared context\<close>

lemma py_index_Some: "x \<in> set xs \<Longrightarrow> \<exists>i. py_index xs x = Some i \<and> i < length xs \<and> xs ! i = x"
  by (induction xs) auto

lemma replace_distinct:
  assumes d: "distinct (map f xs)" and i: "i < length xs" and k: "f (xs ! i) = f r"
  shows "xs[i := r] = map (\<lambda>x. if f x = f r then r else x) xs"
proof (rule nth_equalityI)
  show "length (xs[i := r]) = length (map (\<lambda>x. if f x = f r then r else x) xs)"
    by simp
next
  fix j
  assume "j < length (xs[i := r])"
  then have j: "j < length xs" by simp
  show "xs[i := r] ! j = map (\<lambda>x. if f x = f r then r else x) xs ! j"
  proof (cases "j = i")
    case True
    with i k show ?thesis by simp
  next
    case False
    have "map f xs ! j \<noteq> map f xs ! i"
      using nth_eq_iff_index_eq [OF d, of j i] i j False by simp
    with i j k have "f (xs ! j) \<noteq> f r" by simp
    with False j show ?thesis by simp
  qed
qed

lemma filter_replaced:
  "distinct (map f xs) \<Longrightarrow> f r = n \<Longrightarrow> n \<in> f ` set xs \<Longrightarrow>
     filter (\<lambda>x. f x = n) (map (\<lambda>x. if f x = n then r else x) xs) = [r]"
proof (induction xs)
  case Nil
  then show ?case by simp
next
  case (Cons x xs)
  show ?case
  proof (cases "f x = n")
    case True
    with Cons.prems have "\<forall>y\<in>set xs. f y \<noteq> n" by (auto simp: image_iff)
    then have "filter (\<lambda>x. f x = n) (map (\<lambda>x. if f x = n then r else x) xs) = []"
      by (induction xs) auto
    with True Cons.prems show ?thesis by simp
  next
    case False
    with Cons show ?thesis by auto
  qed
qed

lemma filter_appended:
  "f r = n \<Longrightarrow> n \<notin> f ` set xs \<Longrightarrow> filter (\<lambda>x. f x = n) (xs @ [r]) = [r]"
  by (induction xs) auto

lemma distinct_replaced:
  "distinct (map f xs) \<Longrightarrow> f r = n \<Longrightarrow>
     map f (map (\<lambda>x. if f x = n then r else x) xs) = map f xs"
  by (induction xs) auto

lemma add_icp_result_existing:
  assumes d: "distinct (map company_name (icp_results (agent_context self)))"
    and ex: "company_name result \<in> company_name ` set (icp_results (agent_context self))"
  shows "add_icp_result self result =
     Inr (self\<lparr> agent_context := (agent_context self)\<lparr> icp_results :=
            map (\<lambda>r. if company_name r = company_name result then result else r)
              (icp_results (agent_context self)) \<rparr> \<rparr>)"
proof -
  let ?rs = "icp_results (agent_context self)"
  from ex obtain e where e: "find (\<lambda>r. company_name r = company_name result) ?rs = Some e"
    by (cases "find (\<lambda>r. company_name r = company_name result) ?rs") (auto simp: find_None_iff)
  then have "e \<in> set ?rs" and en: "company_name e = company_name result"
    using find_Some_set by fastforce+
  then obtain i where i: "py_index ?rs e = Some i" "i < length ?rs" "?rs ! i = e"
    using py_index_Some by fastforce
  from replace_distinct [OF d i(2), of result] i(3) en
  have "?rs[i := result] = map (\<lambda>r. if company_name r = company_name result then result else r) ?rs"
    by simp
  with e i(1) show ?thesis
    by (simp add: add_icp_result_def Let_def)
qed

lemma add_icp_result_new:
  assumes "company_name result \<notin> company_name ` set (icp_results (agent_context self))"
  shows "add_icp_result self result =
     Inr (self\<lparr> agent_context := (agent_context self)\<lparr> icp_results :=
            icp_results (agent_context self) @ [result] \<rparr> \<rparr>)"
proof -
  from assms have "find (\<lambda>r. company_name r = company_name result) (icp_results (agent_context self)) = None"
    by (auto simp: find_None_iff image_iff)
  then show ?thesis
    by (simp add: add_icp_result_def Let_def)
qed

text \<open>
  Claim C5. \<^verbatim>\<open>add_icp_result\<close> is an upsert keyed by the company name. In a context whose
  records have pairwise different names (as every context has that starts empty and is
  filled by \<^verbatim>\<open>add_icp_result\<close>), adding two results with the same name never raises; the
  first one replaces the record of that name where it stands, or is appended when the name
  is new; the second one takes the place of the first. Afterwards exactly one record of
  that name exists, it is the second result, the names are still pairwise different, and
  nothing else in the context has changed.
\<close>

theorem add_icp_result_upsert:
  assumes d: "distinct (map company_name (icp_results (agent_context self)))"
    and same: "company_name r1 = company_name r2"
  shows "\<exists>s1 s2. add_icp_result self r1 = Inr s1 \<and> add_icp_result s1 r2 = Inr s2
      \<and> icp_results (agent_context s1) =
          (if company_name r1 \<in> company_name ` set (icp_results (agent_context self))
           then map (\<lambda>r. if company_name r = company_name r1 then r1 else r)
                  (icp_results (agent_context self))
           else icp_results (agent_context self) @ [r1])
      \<and> icp_results (agent_context s2) =
          map (\<lambda>r. if company_name r = company_name r2 then r2 else r)
            (icp_results (agent_context s1))
      \<and> filter (\<lambda>r. company_name r = company_name r2) (icp_results (agent_context s2)) = [r2]
      \<and> distinct (map company_name (icp_results (agent_context s2)))
      \<and> s2 = self\<lparr> agent_context :=
                 (agent_context self)\<lparr> icp_results := icp_results (agent_context s2) \<rparr> \<rparr>"
proof -
  let ?rs = "icp_results (agent_context self)"
  let ?n = "company_name r2"
  define rs1 where "rs1 =
     (if company_name r1 \<in> company_name ` set ?rs
      then map (\<lambda>r. if company_name r = company_name r1 then r1 else r) ?rs
      else ?rs @ [r1])"
  define s1 where "s1 = self\<lparr> agent_context := (agent_context self)\<lparr> icp_results := rs1 \<rparr> \<rparr>"
  define rs2 where "rs2 = map (\<lambda>r. if company_name r = ?n then r2 else r) rs1"
  define s2 where "s2 = s1\<lparr> agent_context := (agent_context s1)\<lparr> icp_results := rs2 \<rparr> \<rparr>"
  have a1: "add_icp_result self r1 = Inr s1"
    using add_icp_result_existing [OF d, of r1] add_icp_result_new [of r1 self]
    by (cases "company_name r1 \<in> company_name ` set ?rs") (simp_all add: s1_def rs1_def)
  have names1: "map company_name rs1 = (if ?n \<in> company_name ` set ?rs
      then map company_name ?rs else map company_name ?rs @ [?n])"
    using same by (simp add: rs1_def distinct_replaced [OF d])
  have d1: "distinct (map company_name rs1)"
    using d by (simp add: names1)
  have in1: "?n \<in> company_name ` set rs1"
  proof -
    have "?n \<in> set (map company_name rs1)"
      by (simp add: names1)
    then show ?thesis by simp
  qed
  have r1s: "icp_results (agent_context s1) = rs1"
    by (simp add: s1_def)
  have a2: "add_icp_result s1 r2 = Inr s2"
    using add_icp_result_existing [of s1 r2] d1 in1
    by (simp add: r1s s2_def rs2_def)
  have f2: "filter (\<lambda>r. company_name r = ?n) rs2 = [r2]"
    unfolding rs2_def using filter_replaced [OF d1 refl in1] .
  have "map company_name rs2 = map company_name rs1"
    unfolding rs2_def by (rule distinct_replaced [OF d1 refl])
  with d1 have d2: "distinct (map company_name rs2)"
    by simp
  have r2s: "icp_results (agent_context s2) = rs2"
    by (simp add: s2_def)
  have frame: "s2 = self\<lparr> agent_context := (agent_context self)\<lparr> icp_results := rs2 \<rparr> \<rparr>"
    by (simp add: s2_def s1_def)
  show ?thesis
    using a1 a2 r1s r2s f2 d2 frame
    by (intro exI [of _ s1] exI [of _ s2]) (simp add: rs1_def rs2_def)
qed

theorem add_icp_result_upsert_witness:
  "\<exists>s1 s2. add_icp_result (SharedContext_init ''https://example.org'' False 0) (scored 40 ''Low'') = Inr s1
      \<and> add_icp_result s1 (scored 80 ''High'') = Inr s2
      \<and> icp_results (agent_context s1) = [scored 40 ''Low'']
      \<and> icp_results (agent_context s2) = [scored 80 ''High'']"
proof -
  have d: "distinct (map company_name (icp_results (agent_context (SharedContext_init ''https://example.org'' False 0))))"
    by (simp add: SharedContext_init_def)
  have same: "company_name (scored 40 ''Low'') = company_name (scored 80 ''High'')"
    by (simp add: scored_def)
  from add_icp_result_upsert [OF d same] show ?thesis
    by (auto simp: SharedContext_init_def scored_def)
qed

lemma fold_insert_names:
  "fold (\<lambda>x acc. if keep x then insert (f x) acc else acc) xs S = S \<union> f ` {x \<in> set xs. keep x}"
  by (induction xs arbitrary: S) auto

lemma get_companies_union:
  "get_companies self =
     (case conference_data (agent_context self) of
        None \<Rightarrow> {}
      | Some cd \<Rightarrow>
          co_name ` set (companies cd)
          \<union> {c \<in> speaker_company ` set (speakers cd). c \<noteq> []}
          \<union> {c \<in> attendee_company ` set (attendees cd). c \<noteq> []})"
proof (cases "conference_data (agent_context self)")
  case None
  then show ?thesis by (simp add: get_companies_def)
next
  case (Some cd)
  have c1: "fold (\<lambda>company acc. insert (co_name company) acc) (companies cd) {}
              = co_name ` set (companies cd)"
    using fold_insert_names [of "\<lambda>x. True" co_name "companies cd" "{}"] by simp
  show ?thesis
    using Some by (auto simp: get_companies_def Let_def c1 fold_insert_names)
qed

text \<open>
  Claim C6 says that \<^verbatim>\<open>get_companies\<close> removes duplicates case-insensitively. The
  function is the union that \<open>get_companies_union\<close> states, but of the names as they are
  written: an organization listed as "Acme" whose speaker is affiliated to "ACME" comes
  back twice, although both names are the same once lowered (as \<^verbatim>\<open>get_company_details\<close>
  and the merge in the orchestrator compare them).
\<close>

theorem get_companies_case_sensitive:
  "get_companies mixed_case_context = {''Acme'', ''ACME''}
   \<and> card (get_companies mixed_case_context) = 2
   \<and> lower ''Acme'' = lower ''ACME''"
proof -
  have g: "get_companies mixed_case_context = {''Acme'', ''ACME''}"
    by (simp add: get_companies_def mixed_case_context_def insert_commute)
  have l: "lower ''Acme'' = lower ''ACME''"
    by code_simp
  from g l show ?thesis by simp
qed

text \<open>
  Claim C10. \<^verbatim>\<open>restore_checkpoint\<close> with a name that has no checkpoint returns false and
  leaves the whole state as it was: the live context with its conference data, results,
  messages, errors and status, and every stored checkpoint. A name has no checkpoint as
  long as none was created for it: a new context has none, and no operation other than
  \<^verbatim>\<open>create_checkpoint\<close> with that very name adds one.
\<close>

theorem restore_checkpoint_unknown:
  "(checkpoints self name = None \<longrightarrow> restore_checkpoint self name = (False, self))
   \<and> checkpoints (SharedContext_init u v now) name = None
   \<and> (other \<noteq> name \<longrightarrow> checkpoints (create_checkpoint self other) name = checkpoints self name)
   \<and> checkpoints (snd (restore_checkpoint self other)) name = checkpoints self name
   \<and> checkpoints (set_status self s) name = checkpoints self name
   \<and> checkpoints (set_current_agent self a) name = checkpoints self name
   \<and> checkpoints (add_error self e) name = checkpoints self name
   \<and> checkpoints (add_message self m) name = checkpoints self name
   \<and> (\<forall>self'. add_icp_result self r = Inr self' \<longrightarrow> checkpoints self' name = checkpoints self name)"
proof -
  have c1: "checkpoints self name = None \<longrightarrow> restore_checkpoint self name = (False, self)"
    by (simp add: restore_checkpoint_def)
  have c2: "checkpoints (SharedContext_init u v now) name = None"
    by (simp add: SharedContext_init_def)
  have c3: "other \<noteq> name \<longrightarrow> checkpoints (create_checkpoint self other) name = checkpoints self name"
    by (simp add: create_checkpoint_def)
  have c4: "checkpoints (snd (restore_checkpoint self other)) name = checkpoints self name"
    by (simp add: restore_checkpoint_def split: option.splits)
  have c5: "checkpoints (set_status self s) name = checkpoints self name"
    by (simp add: set_status_def)
  have c6: "checkpoints (set_current_agent self a) name = checkpoints self name"
    by (simp add: set_current_agent_def)
  have c7: "checkpoints (add_error self e) name = checkpoints self name"
    by (simp add: add_error_def)
  have c8: "checkpoints (add_message self m) name = checkpoints self name"
    by (simp add: add_message_def)
  have c9: "\<forall>self'. add_icp_result self r = Inr self' \<longrightarrow> checkpoints self' name = checkpoints self name"
  proof (intro allI impI)
    fix self'
    assume a: "add_icp_result self r = Inr self'"
    show "checkpoints self' name = checkpoints self name"
    proof (cases "find (\<lambda>x. company_name x = company_name r) (icp_results (agent_context self))")
      case None
      with a show ?thesis by (auto simp: add_icp_result_def Let_def)
    next
      case (Some e)
      with a show ?thesis
        by (cases "py_index (icp_results (agent_context self)) e")
           (auto simp: add_icp_result_def Let_def)
    qed
  qed
  from c1 c2 c3 c4 c5 c6 c7 c8 c9 show ?thesis
    by blast
qed

theorem restore_checkpoint_unknown_witness:
  "restore_checkpoint
     (create_checkpoint (SharedContext_init ''https://example.org'' False 0) ''pre-validate'')
     ''pre-enrich''
   = (False, create_checkpoint (SharedContext_init ''https://example.org'' False 0) ''pre-validate'')"
proof -
  let ?init = "SharedContext_init ''https://example.org'' False 0"
  let ?saved = "create_checkpoint ?init ''pre-validate''"
  note t0 = restore_checkpoint_unknown [of ?init "''pre-enrich''" "''https://example.org''" False 0
      "''pre-validate''"]
  have ne: "''pre-validate'' \<noteq> ''pre-enrich''" by simp
  from t0 ne have "checkpoints ?saved ''pre-enrich'' = None"
    by simp
  with restore_checkpoint_unknown [of ?saved "''pre-enrich''", THEN conjunct1] show ?thesis
    by simp
qed

section \<open>Verification: the pending-message queue\<close>

lemma keys_append_handler:
  "fst ` set (append_handler subs agent h) = insert agent (fst ` set subs)"
  by (induction subs agent h rule: append_handler.induct) auto

lemma map_of_unsubscribed: "agent \<notin> fst ` set subs \<Longrightarrow> map_of subs agent = None"
  by (simp add: map_of_eq_None_iff)

lemma send_subscribers: "subscribers (snd (fst (send run bus m w))) = subscribers bus"
  by (simp add: send_def Let_def split: prod.splits option.splits sum.splits)

lemma send_queued:
  assumes "recipient m \<noteq> ''ALL''" and "recipient m \<notin> fst ` set (subscribers bus)"
  shows "send run bus m w =
     ((w, bus\<lparr> message_history := message_history bus @ [m],
               pending_messages := (pending_messages bus)
                 (recipient m \<mapsto> get_or (pending_messages bus (recipient m)) [] @ [m]) \<rparr>),
      Inr None)"
  using assms by (simp add: send_def Let_def map_of_unsubscribed)

lemma send_pending_other:
  assumes "recipient m \<noteq> agent"
  shows "pending_messages (snd (fst (send run bus m w))) agent = pending_messages bus agent"
  using assms by (simp add: send_def Let_def split: prod.splits option.splits sum.splits)

lemma bus_step_unregistered:
  assumes na: "agent \<noteq> ''ALL''"
    and un: "agent \<notin> fst ` set (subscribers (snd st))"
    and ok: "untouched agent c"
  shows "agent \<notin> fst ` set (subscribers (snd (bus_step run c st)))
       \<and> queue_of (snd (bus_step run c st)) agent = queue_of (snd st) agent @ sent_to agent [c]"
proof (cases st)
  case (Pair w bus)
  show ?thesis
  proof (cases c)
    case (Send m)
    show ?thesis
    proof (cases "recipient m = agent")
      case True
      with na un Pair have "send run bus m w =
         ((w, bus\<lparr> message_history := message_history bus @ [m],
               pending_messages := (pending_messages bus)
                 (recipient m \<mapsto> get_or (pending_messages bus (recipient m)) [] @ [m]) \<rparr>),
          Inr None)"
        by (intro send_queued) simp_all
      with True Send Pair un show ?thesis
        by (simp add: queue_of_def get_or_def)
    next
      case False
      with Send Pair un show ?thesis
        by (simp add: queue_of_def send_subscribers send_pending_other)
    qed
  next
    case (Subscribe a h)
    with ok Pair un show ?thesis
      by (simp add: subscribe_def keys_append_handler queue_of_def)
  next
    case (Unsubscribe a)
    with Pair un show ?thesis
      by (auto simp: unsubscribe_def queue_of_def)
  next
    case (GetPending a)
    with ok Pair un show ?thesis
      by (simp add: get_pending_messages_def queue_of_def)
  qed
qed

lemma sent_to_append: "sent_to agent (cs @ ds) = sent_to agent cs @ sent_to agent ds"
  by (induction agent cs rule: sent_to.induct) auto

lemma bus_run_unregistered:
  assumes na: "agent \<noteq> ''ALL''"
    and un: "agent \<notin> fst ` set (subscribers (snd st))"
    and ok: "\<forall>c\<in>set calls. untouched agent c"
  shows "agent \<notin> fst ` set (subscribers (snd (bus_run run calls st)))
       \<and> queue_of (snd (bus_run run calls st)) agent = queue_of (snd st) agent @ sent_to agent calls"
  using un ok
proof (induction calls arbitrary: st)
  case Nil
  then show ?case by (simp add: bus_run_def)
next
  case (Cons c calls)
  from Cons.prems have okc: "untouched agent c" and okr: "\<forall>c\<in>set calls. untouched agent c"
    by simp_all
  note step = bus_step_unregistered [OF na Cons.prems(1) okc, of run]
  from Cons.IH [of "bus_step run c st"] step okr
  have "agent \<notin> fst ` set (subscribers (snd (bus_run run calls (bus_step run c st))))
       \<and> queue_of (snd (bus_run run calls (bus_step run c st))) agent
           = (queue_of (snd st) agent @ sent_to agent [c]) @ sent_to agent calls"
    by simp
  moreover have "sent_to agent (c # calls) = sent_to agent [c] @ sent_to agent calls"
    using sent_to_append [of agent "[c]" calls] by simp
  ultimately show ?case
    by (simp add: bus_run_def)
qed

text \<open>
  Claim C8, as amended. For every recipient name other than the broadcast address "ALL"
  that has no subscription, \<^verbatim>\<open>send\<close> does not raise and runs no handler: it records the
  message in the history and appends it to the pending queue of that name. While the name
  stays unsubscribed and its queue is not drained, whatever else the bus is asked to do,
  the queue grows by exactly the messages sent to that name, in send order. Once the agent
  subscribes, \<^verbatim>\<open>get_pending_messages\<close> returns these messages (after those the queue held
  at the start; none on a new bus) and removes the queue, so that the next call returns
  the empty list.
\<close>

theorem pending_queue:
  assumes na: "agent \<noteq> ''ALL''"
    and un: "agent \<notin> fst ` set (subscribers bus)"
    and ok: "\<forall>c\<in>set calls. untouched agent c"
  shows "(recipient m = agent \<longrightarrow>
            send run bus m w =
              ((w, bus\<lparr> message_history := message_history bus @ [m],
                        pending_messages := (pending_messages bus)
                          (agent \<mapsto> get_or (pending_messages bus agent) [] @ [m]) \<rparr>),
               Inr None))
       \<and> (let bus1 = subscribe (snd (bus_run run calls (w, bus))) agent h;
               (first, bus2) = get_pending_messages bus1 agent;
               (second, bus3) = get_pending_messages bus2 agent
           in first = get_or (pending_messages bus agent) [] @ sent_to agent calls
              \<and> second = []
              \<and> pending_messages bus2 agent = None)"
proof
  show "recipient m = agent \<longrightarrow>
            send run bus m w =
              ((w, bus\<lparr> message_history := message_history bus @ [m],
                        pending_messages := (pending_messages bus)
                          (agent \<mapsto> get_or (pending_messages bus agent) [] @ [m]) \<rparr>),
               Inr None)"
    using send_queued [of m bus run w] na un by auto
next
  from bus_run_unregistered [OF na _ ok, of "(w, bus)" run] un
  have q: "queue_of (snd (bus_run run calls (w, bus))) agent
            = queue_of bus agent @ sent_to agent calls"
    by simp
  then show "let bus1 = subscribe (snd (bus_run run calls (w, bus))) agent h;
               (first, bus2) = get_pending_messages bus1 agent;
               (second, bus3) = get_pending_messages bus2 agent
           in first = get_or (pending_messages bus agent) [] @ sent_to agent calls
              \<and> second = []
              \<and> pending_messages bus2 agent = None"
    by (simp add: Let_def get_pending_messages_def subscribe_def queue_of_def get_or_def)
qed

theorem pending_queue_witness:
  "send silent_runner (MessageBus_init False) (note_to ''QualityAgent'' ''review_score'') ()
     = (((), (MessageBus_init False)\<lparr>
               message_history := [note_to ''QualityAgent'' ''review_score''],
               pending_messages := [''QualityAgent'' \<mapsto> [note_to ''QualityAgent'' ''review_score'']] \<rparr>),
        Inr None)
   \<and> fst (get_pending_messages
            (subscribe (snd (bus_run silent_runner sample_calls ((), MessageBus_init False)))
               ''QualityAgent'' ())
            ''QualityAgent'')
       = [note_to ''QualityAgent'' ''review_score'', note_to ''QualityAgent'' ''dispute_resolved'']
   \<and> fst (get_pending_messages
            (snd (get_pending_messages
               (subscribe (snd (bus_run silent_runner sample_calls ((), MessageBus_init False)))
                  ''QualityAgent'' ())
               ''QualityAgent''))
            ''QualityAgent'')
       = []"
proof -
  have na: "''QualityAgent'' \<noteq> ''ALL''"
    by simp
  have un: "''QualityAgent'' \<notin> fst ` set (subscribers (MessageBus_init False :: unit MessageBus))"
    by (simp add: MessageBus_init_def)
  have ok: "\<forall>c\<in>set sample_calls. untouched ''QualityAgent'' c"
    by (simp add: sample_calls_def)
  have sent: "sent_to ''QualityAgent'' sample_calls
      = [note_to ''QualityAgent'' ''review_score'', note_to ''QualityAgent'' ''dispute_resolved'']"
    by (simp add: sample_calls_def note_to_def)
  have r: "recipient (note_to ''QualityAgent'' ''review_score'') = ''QualityAgent''"
    by (simp add: note_to_def)
  have e: "get_or (pending_messages (MessageBus_init False :: unit MessageBus) ''QualityAgent'') [] = []"
    by (simp add: MessageBus_init_def get_or_def)
  from pending_queue [OF na un ok, of "note_to ''QualityAgent'' ''review_score''" silent_runner "()" "()"]
  show ?thesis
    by (simp add: Let_def split_def sent r e MessageBus_init_def get_or_def)
qed

text \<open>
  Claim C8 as first stated covers every recipient that is not a subscribed agent. The
  name "ALL" is routed as a broadcast before subscriptions are looked at: with no
  subscriber at all, the message is delivered to nobody and is not queued.
\<close>

theorem pending_queue_broadcast_counterexample:
  "recipient (note_to ''ALL'' ''status'') \<notin> fst ` set (subscribers (MessageBus_init False :: unit MessageBus))
   \<and> snd (send silent_runner (MessageBus_init False) (note_to ''ALL'' ''status'') ()) = Inr None
   \<and> pending_messages
        (snd (fst (send silent_runner (MessageBus_init False) (note_to ''ALL'' ''status'') ())))
        (recipient (note_to ''ALL'' ''status'')) = None
   \<and> fst (get_pending_messages
            (subscribe
               (snd (fst (send silent_runner (MessageBus_init False) (note_to ''ALL'' ''status'') ())))
               ''ALL'' ())
            ''ALL'') = []"
  by (simp add: send_def Let_def MessageBus_init_def note_to_def get_pending_messages_def
        subscribe_def get_or_def)

section \<open>Verification: checkpoints are deep copies\<close>

lemma lookup_append: "a < length h \<Longrightarrow> lookup (h @ ext) a = lookup h a"
  by (simp add: lookup_def nth_append)

lemma lookup_Some_less: "lookup h a = Some x \<Longrightarrow> a < length h"
  by (simp add: lookup_def split: if_splits)

lemma lookup_append_Some: "lookup h a = Some x \<Longrightarrow> lookup (h @ ext) a = Some x"
  by (simp add: lookup_def nth_append split: if_splits)

lemma lookup_new: "lookup (h @ [x]) (length h) = Some x"
  by (simp add: lookup_def)

subsection \<open>Views depend on the objects of the context only\<close>

lemma view_leaf_agree: "lookup h' a = lookup h a \<Longrightarrow> view_leaf p h' a = view_leaf p h a"
  by (simp add: view_leaf_def)

lemma view_leaves_agree:
  "\<forall>a\<in>set as. lookup h' a = lookup h a \<Longrightarrow> view_leaves p h' as = view_leaves p h as"
proof (induction as)
  case Nil
  then show ?case by simp
next
  case (Cons a as)
  then have "view_leaf p h' a = view_leaf p h a" "view_leaves p h' as = view_leaves p h as"
    by (simp_all add: view_leaf_def)
  then show ?case by (simp split: option.splits)
qed

lemma reach_list_agree: "lookup h' a = lookup h a \<Longrightarrow> reach_list h' a = reach_list h a"
  by (simp add: reach_list_def)

lemma reach_list_self: "a \<in> reach_list h a"
  by (simp add: reach_list_def split: option.splits obj.splits)

lemma reach_conference_self: "a \<in> reach_conference h a"
  by (simp add: reach_conference_def split: option.splits obj.splits)

lemma reach_context_self: "a \<in> reach_context h a"
  by (simp add: reach_context_def split: option.splits obj.splits)

lemma reach_list_unfold:
  "lookup h a = Some (RefList as) \<Longrightarrow> reach_list h a = insert a (set as)"
  by (simp add: reach_list_def)

lemma view_list_agree:
  assumes agree: "\<forall>x\<in>reach_list h a. lookup h' x = lookup h x"
  shows "view_list p h' a = view_list p h a"
proof -
  from agree reach_list_self [of a h] have a: "lookup h' a = lookup h a"
    by blast
  show ?thesis
  proof (cases "\<exists>as. lookup h a = Some (RefList as)")
    case True
    then obtain as where l: "lookup h a = Some (RefList as)"
      by blast
    with agree have "\<forall>x\<in>set as. lookup h' x = lookup h x"
      by (simp add: reach_list_unfold [OF l])
    then have "view_leaves p h' as = view_leaves p h as"
      by (rule view_leaves_agree)
    with l a show ?thesis
      by (simp add: view_list_def)
  next
    case False
    with a show ?thesis
      by (auto simp: view_list_def split: option.splits obj.splits)
  qed
qed

lemma reach_conference_unfold:
  "lookup h a = Some (ConferenceObj u n d l sp at co t) \<Longrightarrow>
     reach_conference h a = insert a (reach_list h sp \<union> reach_list h at \<union> reach_list h co)"
  by (simp add: reach_conference_def)

lemma reach_conference_agree:
  assumes agree: "\<forall>x\<in>reach_conference h a. lookup h' x = lookup h x"
  shows "reach_conference h' a = reach_conference h a"
proof -
  from agree reach_conference_self [of a h] have a: "lookup h' a = lookup h a"
    by blast
  show ?thesis
  proof (cases "\<exists>u n d l sp at co t. lookup h a = Some (ConferenceObj u n d l sp at co t)")
    case True
    then obtain u n d l sp at co t where l: "lookup h a = Some (ConferenceObj u n d l sp at co t)"
      by blast
    with a have l': "lookup h' a = Some (ConferenceObj u n d l sp at co t)"
      by simp
    from agree have "lookup h' sp = lookup h sp" "lookup h' at = lookup h at" "lookup h' co = lookup h co"
      by (simp_all add: reach_conference_unfold [OF l] reach_list_self)
    then have "reach_list h' sp = reach_list h sp" "reach_list h' at = reach_list h at"
      "reach_list h' co = reach_list h co"
      by (simp_all add: reach_list_def)
    then show ?thesis
      by (simp add: reach_conference_unfold [OF l] reach_conference_unfold [OF l'])
  next
    case False
    with a show ?thesis
      by (auto simp: reach_conference_def split: option.splits obj.splits)
  qed
qed

lemma view_conference_agree:
  assumes agree: "\<forall>x\<in>reach_conference h a. lookup h' x = lookup h x"
  shows "view_conference h' a = view_conference h a"
proof -
  from agree reach_conference_self [of a h] have a: "lookup h' a = lookup h a"
    by blast
  show ?thesis
  proof (cases "\<exists>u n d l sp at co t. lookup h a = Some (ConferenceObj u n d l sp at co t)")
    case True
    then obtain u n d l sp at co t where l: "lookup h a = Some (ConferenceObj u n d l sp at co t)"
      by blast
    with a have l': "lookup h' a = Some (ConferenceObj u n d l sp at co t)"
      by simp
    from agree have g:
      "\<forall>x\<in>reach_list h sp. lookup h' x = lookup h x"
      "\<forall>x\<in>reach_list h at. lookup h' x = lookup h x"
      "\<forall>x\<in>reach_list h co. lookup h' x = lookup h x"
      by (simp_all add: reach_conference_unfold [OF l])
    have
      "view_list the_speaker h' sp = view_list the_speaker h sp"
      "view_list the_attendee h' at = view_list the_attendee h at"
      "view_list the_company h' co = view_list the_company h co"
      by (rule view_list_agree [OF g(1)], rule view_list_agree [OF g(2)],
          rule view_list_agree [OF g(3)])
    then show ?thesis
      by (simp add: view_conference_def l l' split: option.splits)
  next
    case False
    with a show ?thesis
      by (auto simp: view_conference_def split: option.splits obj.splits)
  qed
qed

lemma reach_context_unfold:
  "lookup h a = Some (ContextObj u cd rs ms es st ca v) \<Longrightarrow>
     reach_context h a =
       insert a ((case cd of None \<Rightarrow> {} | Some c \<Rightarrow> reach_conference h c)
                 \<union> reach_list h rs \<union> reach_list h ms \<union> {es})"
  by (simp add: reach_context_def)

lemma reach_context_agree:
  assumes agree: "\<forall>x\<in>reach_context h a. lookup h' x = lookup h x"
  shows "reach_context h' a = reach_context h a"
proof -
  from agree reach_context_self [of a h] have a: "lookup h' a = lookup h a"
    by blast
  show ?thesis
  proof (cases "\<exists>u cd rs ms es st ca v. lookup h a = Some (ContextObj u cd rs ms es st ca v)")
    case True
    then obtain u cd rs ms es st ca v where l: "lookup h a = Some (ContextObj u cd rs ms es st ca v)"
      by blast
    with a have l': "lookup h' a = Some (ContextObj u cd rs ms es st ca v)"
      by simp
    from agree have "lookup h' rs = lookup h rs" "lookup h' ms = lookup h ms"
      by (simp_all add: reach_context_unfold [OF l] reach_list_self)
    then have lists: "reach_list h' rs = reach_list h rs" "reach_list h' ms = reach_list h ms"
      by (simp_all add: reach_list_def)
    have conf: "(case cd of None \<Rightarrow> {} | Some c \<Rightarrow> reach_conference h' c)
              = (case cd of None \<Rightarrow> {} | Some c \<Rightarrow> reach_conference h c)"
    proof (cases cd)
      case None
      then show ?thesis by simp
    next
      case (Some c)
      with agree have "\<forall>x\<in>reach_conference h c. lookup h' x = lookup h x"
        by (simp add: reach_context_unfold [OF l])
      then have "reach_conference h' c = reach_conference h c"
        by (rule reach_conference_agree)
      with Some show ?thesis
        by simp
    qed
    show ?thesis
      by (simp only: reach_context_unfold [OF l] reach_context_unfold [OF l'] lists conf)
  next
    case False
    with a show ?thesis
      by (auto simp: reach_context_def split: option.splits obj.splits)
  qed
qed

lemma view_context_agree:
  assumes agree: "\<forall>x\<in>reach_context h a. lookup h' x = lookup h x"
  shows "view_context h' a = view_context h a"
proof -
  from agree reach_context_self [of a h] have a: "lookup h' a = lookup h a"
    by blast
  show ?thesis
  proof (cases "\<exists>u cd rs ms es st ca v. lookup h a = Some (ContextObj u cd rs ms es st ca v)")
    case True
    then obtain u cd rs ms es st ca v where l: "lookup h a = Some (ContextObj u cd rs ms es st ca v)"
      by blast
    with a have l': "lookup h' a = Some (ContextObj u cd rs ms es st ca v)"
      by simp
    from agree have g:
      "\<forall>x\<in>reach_list h rs. lookup h' x = lookup h x"
      "\<forall>x\<in>reach_list h ms. lookup h' x = lookup h x"
      by (simp_all add: reach_context_unfold [OF l])
    have lists:
      "view_list the_result h' rs = view_list the_result h rs"
      "view_list the_message h' ms = view_list the_message h ms"
      by (rule view_list_agree [OF g(1)], rule view_list_agree [OF g(2)])
    from agree have "lookup h' es = lookup h es"
      by (simp add: reach_context_unfold [OF l])
    then have errs: "view_leaf the_strings h' es = view_leaf the_strings h es"
      by (rule view_leaf_agree)
    have conf: "view_conference_opt h' cd = view_conference_opt h cd"
    proof (cases cd)
      case None
      then show ?thesis by (simp add: view_conference_opt_def)
    next
      case (Some c)
      with agree have "\<forall>x\<in>reach_conference h c. lookup h' x = lookup h x"
        by (simp add: reach_context_unfold [OF l])
      then have "view_conference h' c = view_conference h c"
        by (rule view_conference_agree)
      with Some show ?thesis
        by (simp add: view_conference_opt_def)
    qed
    show ?thesis
      by (simp add: view_context_def l l' lists errs conf split: option.splits)
  next
    case False
    with a show ?thesis
      by (auto simp: view_context_def split: option.splits obj.splits)
  qed
qed

subsection \<open>Copies stay copies when the store grows\<close>

lemma copied_leaf_mono: "copied_leaf h0 h a b \<Longrightarrow> copied_leaf h0 (h @ e) a b"
  by (auto simp: copied_leaf_def lookup_append_Some)

lemma copied_leaves_mono:
  "list_all2 (copied_leaf h0 h) as bs \<Longrightarrow> list_all2 (copied_leaf h0 (h @ e)) as bs"
  by (erule list_all2_mono) (rule copied_leaf_mono)

lemma copied_list_mono: "copied_list h0 h a b \<Longrightarrow> copied_list h0 (h @ e) a b"
  unfolding copied_list_def
  by (blast intro: lookup_append_Some copied_leaves_mono)

lemma copied_conference_mono: "copied_conference h0 h a b \<Longrightarrow> copied_conference h0 (h @ e) a b"
  unfolding copied_conference_def
  by (blast intro: lookup_append_Some copied_list_mono)

lemma memo_inv_mono:
  assumes "memo_inv h0 m h"
  shows "memo_inv h0 m (h @ e)"
proof -
  from assms obtain ext where "h = h0 @ ext"
    by (auto simp: memo_inv_def)
  then have "h @ e = h0 @ (ext @ e)"
    by simp
  moreover from assms have "\<forall>a b. m a = Some b \<longrightarrow>
      copied_leaf h0 (h @ e) a b \<or> copied_list h0 (h @ e) a b"
    unfolding memo_inv_def by (blast intro: copied_leaf_mono copied_list_mono)
  ultimately show ?thesis
    unfolding memo_inv_def by blast
qed

lemma memo_inv_length: "memo_inv h0 m h \<Longrightarrow> length h0 \<le> length h"
  by (auto simp: memo_inv_def)

lemma memo_inv_lookup: "memo_inv h0 m h \<Longrightarrow> lookup h0 a = Some x \<Longrightarrow> lookup h a = Some x"
  by (auto simp: memo_inv_def lookup_append_Some)

lemma memo_inv_empty: "memo_inv h Map.empty h"
  by (simp add: memo_inv_def)

subsection \<open>Each copy function returns a copy\<close>

lemma copy_leaf_correct:
  assumes inv: "memo_inv h0 m h" and leaf: "lookup h0 a = Some (Leaf l)"
  shows "\<exists>b m' h'. copy_leaf m h a = Some (b, m', h') \<and> memo_inv h0 m' h'
           \<and> copied_leaf h0 h' a b \<and> (\<exists>e. h' = h @ e)"
proof (cases "m a")
  case None
  from memo_inv_lookup [OF inv leaf] have la: "lookup h a = Some (Leaf l)" .
  let ?b = "length h"
  let ?h = "h @ [Leaf l]"
  have c: "copy_leaf m h a = Some (?b, m(a \<mapsto> ?b), ?h)"
    by (simp add: copy_leaf_def None la)
  have new: "copied_leaf h0 ?h a ?b"
    using leaf memo_inv_length [OF inv] by (simp add: copied_leaf_def lookup_new)
  have inv': "memo_inv h0 (m(a \<mapsto> ?b)) ?h"
  proof -
    note old = memo_inv_mono [OF inv, of "[Leaf l]"]
    then have e: "\<exists>ext. ?h = h0 @ ext"
      by (simp add: memo_inv_def)
    have "\<forall>x y. (m(a \<mapsto> ?b)) x = Some y \<longrightarrow> copied_leaf h0 ?h x y \<or> copied_list h0 ?h x y"
    proof (intro allI impI)
      fix x y
      assume xy: "(m(a \<mapsto> ?b)) x = Some y"
      show "copied_leaf h0 ?h x y \<or> copied_list h0 ?h x y"
      proof (cases "x = a")
        case True
        with xy new show ?thesis by simp
      next
        case False
        with xy have "m x = Some y" by simp
        with old show ?thesis by (simp add: memo_inv_def)
      qed
    qed
    with e show ?thesis
      unfolding memo_inv_def by blast
  qed
  from c inv' new show ?thesis
    by blast
next
  case (Some b)
  have c: "copy_leaf m h a = Some (b, m, h)"
    by (simp add: copy_leaf_def Some)
  from inv Some have "copied_leaf h0 h a b \<or> copied_list h0 h a b"
    by (simp add: memo_inv_def)
  with leaf have "copied_leaf h0 h a b"
    by (auto simp: copied_list_def)
  moreover have "\<exists>e. h = h @ e"
    by simp
  ultimately show ?thesis
    using c inv by blast
qed

lemma copy_leaves_correct:
  assumes inv: "memo_inv h0 m h"
    and leaves: "\<forall>x\<in>set as. \<exists>l. lookup h0 x = Some (Leaf l)"
  shows "\<exists>bs m' h'. copy_leaves m h as = Some (bs, m', h') \<and> memo_inv h0 m' h'
           \<and> list_all2 (copied_leaf h0 h') as bs \<and> (\<exists>e. h' = h @ e)"
  using inv leaves
proof (induction as arbitrary: m h)
  case Nil
  then show ?case by simp
next
  case (Cons a as)
  from Cons.prems(2) obtain l where l: "lookup h0 a = Some (Leaf l)"
    by auto
  from copy_leaf_correct [OF Cons.prems(1) l]
  obtain b m1 h1 e1 where s1: "copy_leaf m h a = Some (b, m1, h1)" "memo_inv h0 m1 h1"
      "copied_leaf h0 h1 a b" "h1 = h @ e1"
    by blast
  from Cons.prems(2) have rest: "\<forall>x\<in>set as. \<exists>l. lookup h0 x = Some (Leaf l)"
    by simp
  from Cons.IH [OF s1(2) rest]
  obtain bs m2 h2 e2 where s2: "copy_leaves m1 h1 as = Some (bs, m2, h2)" "memo_inv h0 m2 h2"
      "list_all2 (copied_leaf h0 h2) as bs" "h2 = h1 @ e2"
    by blast
  have c: "copy_leaves m h (a # as) = Some (b # bs, m2, h2)"
    by (simp add: s1(1) s2(1))
  from s1(3) s2(4) have "copied_leaf h0 h2 a b"
    by (simp add: copied_leaf_mono)
  with s2(3) have all: "list_all2 (copied_leaf h0 h2) (a # as) (b # bs)"
    by simp
  from s1(4) s2(4) have "h2 = h @ (e1 @ e2)"
    by simp
  with c s2(2) all show ?case
    by blast
qed

lemma wf_listD:
  "wf_list h a \<Longrightarrow> \<exists>as. lookup h a = Some (RefList as) \<and> (\<forall>x\<in>set as. \<exists>l. lookup h x = Some (Leaf l))"
  by (simp add: wf_list_def)

lemma copy_list_correct:
  assumes inv: "memo_inv h0 m h" and wf: "wf_list h0 a"
  shows "\<exists>b m' h'. copy_list m h a = Some (b, m', h') \<and> memo_inv h0 m' h'
           \<and> copied_list h0 h' a b \<and> (\<exists>e. h' = h @ e)"
proof -
  from wf_listD [OF wf] obtain as where as: "lookup h0 a = Some (RefList as)"
      "\<forall>x\<in>set as. \<exists>l. lookup h0 x = Some (Leaf l)"
    by blast
  show ?thesis
  proof (cases "m a")
    case None
    from memo_inv_lookup [OF inv as(1)] have la: "lookup h a = Some (RefList as)" .
    from copy_leaves_correct [OF inv as(2)]
    obtain bs m1 h1 e1 where s: "copy_leaves m h as = Some (bs, m1, h1)" "memo_inv h0 m1 h1"
        "list_all2 (copied_leaf h0 h1) as bs" "h1 = h @ e1"
      by blast
    let ?b = "length h1"
    let ?h = "h1 @ [RefList bs]"
    have c: "copy_list m h a = Some (?b, m1(a \<mapsto> ?b), ?h)"
      by (simp add: copy_list_def None la s(1))
    have new: "copied_list h0 ?h a ?b"
      unfolding copied_list_def
      using as(1) memo_inv_length [OF s(2)] copied_leaves_mono [OF s(3), of "[RefList bs]"]
      by (auto simp: lookup_new)
    have inv': "memo_inv h0 (m1(a \<mapsto> ?b)) ?h"
    proof -
      note old = memo_inv_mono [OF s(2), of "[RefList bs]"]
      then have e: "\<exists>ext. ?h = h0 @ ext"
        by (simp add: memo_inv_def)
      have "\<forall>x y. (m1(a \<mapsto> ?b)) x = Some y \<longrightarrow> copied_leaf h0 ?h x y \<or> copied_list h0 ?h x y"
      proof (intro allI impI)
        fix x y
        assume xy: "(m1(a \<mapsto> ?b)) x = Some y"
        show "copied_leaf h0 ?h x y \<or> copied_list h0 ?h x y"
        proof (cases "x = a")
          case True
          with xy new show ?thesis by simp
        next
          case False
          with xy have "m1 x = Some y" by simp
          with old show ?thesis by (simp add: memo_inv_def)
        qed
      qed
      with e show ?thesis
        unfolding memo_inv_def by blast
    qed
    from s(4) have "?h = h @ (e1 @ [RefList bs])"
      by simp
    with c inv' new show ?thesis
      by blast
  next
    case (Some b)
    have c: "copy_list m h a = Some (b, m, h)"
      by (simp add: copy_list_def Some)
    from inv Some have "copied_leaf h0 h a b \<or> copied_list h0 h a b"
      by (simp add: memo_inv_def)
    with as(1) have "copied_list h0 h a b"
      by (auto simp: copied_leaf_def)
    moreover have "\<exists>e. h = h @ e"
      by simp
    ultimately show ?thesis
      using c inv by blast
  qed
qed

lemma copy_conference_correct:
  assumes inv: "memo_inv h0 m h" and wf: "wf_conference h0 a"
  shows "\<exists>b m' h'. copy_conference m h a = Some (b, m', h') \<and> memo_inv h0 m' h'
           \<and> copied_conference h0 h' a b \<and> (\<exists>e. h' = h @ e)"
proof -
  from wf obtain u n d l sp at co t where
    l: "lookup h0 a = Some (ConferenceObj u n d l sp at co t)"
    and w: "wf_list h0 sp" "wf_list h0 at" "wf_list h0 co"
    unfolding wf_conference_def by blast
  from memo_inv_lookup [OF inv l] have la: "lookup h a = Some (ConferenceObj u n d l sp at co t)" .
  from copy_list_correct [OF inv w(1)]
  obtain sp' m1 h1 e1 where s1: "copy_list m h sp = Some (sp', m1, h1)" "memo_inv h0 m1 h1"
      "copied_list h0 h1 sp sp'" "h1 = h @ e1"
    by blast
  from copy_list_correct [OF s1(2) w(2)]
  obtain at' m2 h2 e2 where s2: "copy_list m1 h1 at = Some (at', m2, h2)" "memo_inv h0 m2 h2"
      "copied_list h0 h2 at at'" "h2 = h1 @ e2"
    by blast
  from copy_list_correct [OF s2(2) w(3)]
  obtain co' m3 h3 e3 where s3: "copy_list m2 h2 co = Some (co', m3, h3)" "memo_inv h0 m3 h3"
      "copied_list h0 h3 co co'" "h3 = h2 @ e3"
    by blast
  let ?b = "length h3"
  let ?new = "ConferenceObj u n d l sp' at' co' t"
  let ?h = "h3 @ [?new]"
  have c: "copy_conference m h a = Some (?b, m3, ?h)"
    by (simp add: copy_conference_def la s1(1) s2(1) s3(1))
  have k1: "copied_list h0 ?h sp sp'"
    using s1(3) s2(4) s3(4) by (simp add: copied_list_mono)
  have k2: "copied_list h0 ?h at at'"
    using s2(3) s3(4) by (simp add: copied_list_mono)
  have k3: "copied_list h0 ?h co co'"
    using s3(3) by (simp add: copied_list_mono)
  have new: "copied_conference h0 ?h a ?b"
    unfolding copied_conference_def
    using l k1 k2 k3 memo_inv_length [OF s3(2)] lookup_new [of h3 ?new]
    by blast
  have inv': "memo_inv h0 m3 ?h"
    by (rule memo_inv_mono [OF s3(2)])
  from s1(4) s2(4) s3(4) have "?h = h @ (e1 @ e2 @ e3 @ [?new])"
    by simp
  with c inv' new show ?thesis
    by blast
qed

lemma copy_conference_opt_correct:
  assumes inv: "memo_inv h0 m h" and wf: "\<forall>c. cd = Some c \<longrightarrow> wf_conference h0 c"
  shows "\<exists>cd' m' h'. copy_conference_opt m h cd = Some (cd', m', h') \<and> memo_inv h0 m' h'
           \<and> (case cd of None \<Rightarrow> cd' = None
               | Some c \<Rightarrow> \<exists>c'. cd' = Some c' \<and> copied_conference h0 h' c c')
           \<and> (\<exists>e. h' = h @ e)"
proof (cases cd)
  case None
  then have "copy_conference_opt m h cd = Some (None, m, h)"
    by (simp add: copy_conference_opt_def)
  moreover have "\<exists>e. h = h @ e"
    by simp
  ultimately show ?thesis
    using inv None by auto
next
  case (Some c)
  with wf have "wf_conference h0 c"
    by simp
  from copy_conference_correct [OF inv this]
  obtain c' m1 h1 e1 where s: "copy_conference m h c = Some (c', m1, h1)" "memo_inv h0 m1 h1"
      "copied_conference h0 h1 c c'" "h1 = h @ e1"
    by blast
  from s(1) Some have "copy_conference_opt m h cd = Some (Some c', m1, h1)"
    by (simp add: copy_conference_opt_def)
  with s Some show ?thesis
    by auto
qed

lemma copy_context_correct:
  assumes inv: "memo_inv h0 m h" and wf: "wf_context h0 a"
  shows "\<exists>b m' h'. copy_context m h a = Some (b, m', h')
           \<and> copied_context h0 h' a b \<and> (\<exists>e. h' = h @ e)"
proof -
  from wf obtain u cd rs ms es st ca v l0 where
    l: "lookup h0 a = Some (ContextObj u cd rs ms es st ca v)"
    and w: "\<forall>c. cd = Some c \<longrightarrow> wf_conference h0 c" "wf_list h0 rs" "wf_list h0 ms"
      "lookup h0 es = Some (Leaf l0)"
    unfolding wf_context_def by blast
  from memo_inv_lookup [OF inv l] have la: "lookup h a = Some (ContextObj u cd rs ms es st ca v)" .
  from copy_conference_opt_correct [OF inv w(1)]
  obtain cd' m1 h1 e1 where s1: "copy_conference_opt m h cd = Some (cd', m1, h1)"
      "memo_inv h0 m1 h1"
      "case cd of None \<Rightarrow> cd' = None | Some c \<Rightarrow> \<exists>c'. cd' = Some c' \<and> copied_conference h0 h1 c c'"
      "h1 = h @ e1"
    by blast
  from copy_list_correct [OF s1(2) w(2)]
  obtain rs' m2 h2 e2 where s2: "copy_list m1 h1 rs = Some (rs', m2, h2)" "memo_inv h0 m2 h2"
      "copied_list h0 h2 rs rs'" "h2 = h1 @ e2"
    by blast
  from copy_list_correct [OF s2(2) w(3)]
  obtain ms' m3 h3 e3 where s3: "copy_list m2 h2 ms = Some (ms', m3, h3)" "memo_inv h0 m3 h3"
      "copied_list h0 h3 ms ms'" "h3 = h2 @ e3"
    by blast
  from copy_leaf_correct [OF s3(2) w(4)]
  obtain es' m4 h4 e4 where s4: "copy_leaf m3 h3 es = Some (es', m4, h4)" "memo_inv h0 m4 h4"
      "copied_leaf h0 h4 es es'" "h4 = h3 @ e4"
    by blast
  let ?b = "length h4"
  let ?new = "ContextObj u cd' rs' ms' es' st ca v"
  let ?h = "h4 @ [?new]"
  have c: "copy_context m h a = Some (?b, m4, ?h)"
    by (simp add: copy_context_def la s1(1) s2(1) s3(1) s4(1))
  have k1: "case cd of None \<Rightarrow> cd' = None
            | Some c \<Rightarrow> \<exists>c'. cd' = Some c' \<and> copied_conference h0 ?h c c'"
  proof (cases cd)
    case None
    with s1(3) show ?thesis by simp
  next
    case (Some c0)
    with s1(3) obtain c' where "cd' = Some c'" "copied_conference h0 h1 c0 c'"
      by auto
    with s2(4) s3(4) s4(4) Some show ?thesis
      by (simp add: copied_conference_mono)
  qed
  have k2: "copied_list h0 ?h rs rs'"
    using s2(3) s3(4) s4(4) by (simp add: copied_list_mono)
  have k3: "copied_list h0 ?h ms ms'"
    using s3(3) s4(4) by (simp add: copied_list_mono)
  have k4: "copied_leaf h0 ?h es es'"
    using s4(3) by (simp add: copied_leaf_mono)
  have new: "copied_context h0 ?h a ?b"
    unfolding copied_context_def
    using l k1 k2 k3 k4 memo_inv_length [OF s4(2)] lookup_new [of h4 ?new]
    by blast
  from s1(4) s2(4) s3(4) s4(4) have "?h = h @ (e1 @ e2 @ e3 @ e4 @ [?new])"
    by simp
  with c new show ?thesis
    by blast
qed

lemma deepcopy_correct:
  assumes wf: "wf_context h a"
  shows "\<exists>b h'. deepcopy h a = Some (b, h') \<and> copied_context h h' a b \<and> (\<exists>e. h' = h @ e)"
proof -
  from copy_context_correct [OF memo_inv_empty wf]
  obtain b m' h' where "copy_context Map.empty h a = Some (b, m', h')"
      "copied_context h h' a b" "\<exists>e. h' = h @ e"
    by blast
  then show ?thesis
    by (simp add: deepcopy_def)
qed

subsection \<open>A copy holds the same values, in new objects\<close>

lemma copied_leaf_view: "copied_leaf h0 h a b \<Longrightarrow> view_leaf p h b = view_leaf p h0 a"
  by (auto simp: copied_leaf_def view_leaf_def)

lemma copied_leaf_new: "copied_leaf h0 h a b \<Longrightarrow> length h0 \<le> b \<and> b < length h"
  by (auto simp: copied_leaf_def dest: lookup_Some_less)

lemma copied_leaves_view:
  "list_all2 (copied_leaf h0 h) as bs \<Longrightarrow> view_leaves p h bs = view_leaves p h0 as"
proof (induction as bs rule: list_all2_induct)
  case Nil
  then show ?case by simp
next
  case (Cons a as b bs)
  from Cons.hyps(1) have "view_leaf p h b = view_leaf p h0 a"
    by (rule copied_leaf_view)
  with Cons.IH show ?case
    by (simp split: option.splits)
qed

lemma copied_leaves_new:
  "list_all2 (copied_leaf h0 h) as bs \<Longrightarrow> \<forall>b\<in>set bs. length h0 \<le> b \<and> b < length h"
  by (induction as bs rule: list_all2_induct) (auto dest: copied_leaf_new)

lemma copied_list_view: "copied_list h0 h a b \<Longrightarrow> view_list p h b = view_list p h0 a"
  by (auto simp: copied_list_def view_list_def copied_leaves_view)

lemma copied_list_new:
  assumes "copied_list h0 h a b"
  shows "reach_list h b \<subseteq> {length h0..<length h}"
proof -
  from assms obtain as bs where c: "lookup h b = Some (RefList bs)" "length h0 \<le> b"
      "list_all2 (copied_leaf h0 h) as bs"
    unfolding copied_list_def by blast
  from c(1) have "b < length h"
    by (rule lookup_Some_less)
  with c(2) copied_leaves_new [OF c(3)] show ?thesis
    by (auto simp: reach_list_unfold [OF c(1)])
qed

lemma copied_conference_view:
  assumes "copied_conference h0 h a b"
  shows "view_conference h b = view_conference h0 a"
proof -
  from assms obtain u n d l sp at co t sp' at' co' where
    c: "lookup h0 a = Some (ConferenceObj u n d l sp at co t)"
       "lookup h b = Some (ConferenceObj u n d l sp' at' co' t)"
       "copied_list h0 h sp sp'" "copied_list h0 h at at'" "copied_list h0 h co co'"
    unfolding copied_conference_def by blast
  have "view_list the_speaker h sp' = view_list the_speaker h0 sp"
    "view_list the_attendee h at' = view_list the_attendee h0 at"
    "view_list the_company h co' = view_list the_company h0 co"
    by (rule copied_list_view [OF c(3)], rule copied_list_view [OF c(4)],
        rule copied_list_view [OF c(5)])
  then show ?thesis
    by (simp add: view_conference_def c(1,2) split: option.splits)
qed

lemma copied_conference_new:
  assumes "copied_conference h0 h a b"
  shows "reach_conference h b \<subseteq> {length h0..<length h}"
proof -
  from assms obtain u n d l sp at co t sp' at' co' where
    c: "lookup h b = Some (ConferenceObj u n d l sp' at' co' t)" "length h0 \<le> b"
       "copied_list h0 h sp sp'" "copied_list h0 h at at'" "copied_list h0 h co co'"
    unfolding copied_conference_def by blast
  from c(1) have "b < length h"
    by (rule lookup_Some_less)
  with c(2) copied_list_new [OF c(3)] copied_list_new [OF c(4)] copied_list_new [OF c(5)]
  show ?thesis
    by (auto simp: reach_conference_unfold [OF c(1)])
qed

lemma copied_context_view:
  assumes "copied_context h0 h a b"
  shows "view_context h b = view_context h0 a"
proof -
  from assms obtain u cd rs ms es st ca v cd' rs' ms' es' where
    c: "lookup h0 a = Some (ContextObj u cd rs ms es st ca v)"
       "lookup h b = Some (ContextObj u cd' rs' ms' es' st ca v)"
       "case cd of None \<Rightarrow> cd' = None | Some c \<Rightarrow> \<exists>c'. cd' = Some c' \<and> copied_conference h0 h c c'"
       "copied_list h0 h rs rs'" "copied_list h0 h ms ms'" "copied_leaf h0 h es es'"
    unfolding copied_context_def by blast
  have lists: "view_list the_result h rs' = view_list the_result h0 rs"
    "view_list the_message h ms' = view_list the_message h0 ms"
    by (rule copied_list_view [OF c(4)], rule copied_list_view [OF c(5)])
  have errs: "view_leaf the_strings h es' = view_leaf the_strings h0 es"
    by (rule copied_leaf_view [OF c(6)])
  have conf: "view_conference_opt h cd' = view_conference_opt h0 cd"
  proof (cases cd)
    case None
    with c(3) show ?thesis by (simp add: view_conference_opt_def)
  next
    case (Some c0)
    with c(3) obtain c' where c': "cd' = Some c'" "copied_conference h0 h c0 c'"
      by auto
    from copied_conference_view [OF c'(2)] c'(1) Some show ?thesis
      by (simp add: view_conference_opt_def)
  qed
  show ?thesis
    by (simp add: view_context_def c(1,2) lists errs conf split: option.splits)
qed

lemma copied_context_new:
  assumes "copied_context h0 h a b"
  shows "reach_context h b \<subseteq> {length h0..<length h}"
proof -
  from assms obtain u cd rs ms es st ca v cd' rs' ms' es' where
    c: "lookup h b = Some (ContextObj u cd' rs' ms' es' st ca v)" "length h0 \<le> b"
       "case cd of None \<Rightarrow> cd' = None | Some c \<Rightarrow> \<exists>c'. cd' = Some c' \<and> copied_conference h0 h c c'"
       "copied_list h0 h rs rs'" "copied_list h0 h ms ms'" "copied_leaf h0 h es es'"
    unfolding copied_context_def by blast
  from c(1) have b: "b < length h"
    by (rule lookup_Some_less)
  have conf: "(case cd' of None \<Rightarrow> {} | Some c \<Rightarrow> reach_conference h c) \<subseteq> {length h0..<length h}"
  proof (cases cd)
    case None
    with c(3) show ?thesis by simp
  next
    case (Some c0)
    with c(3) obtain c' where c': "cd' = Some c'" "copied_conference h0 h c0 c'"
      by auto
    from copied_conference_new [OF c'(2)] c'(1) show ?thesis
      by simp
  qed
  from b c(2) conf copied_list_new [OF c(4)] copied_list_new [OF c(5)] copied_leaf_new [OF c(6)]
  show ?thesis
    by (auto simp: reach_context_unfold [OF c(1)])
qed

subsection \<open>A context that can be read is well-formed\<close>

lemma view_leaves_wf:
  "view_leaves p h as = Some xs \<Longrightarrow> \<forall>x\<in>set as. \<exists>l. lookup h x = Some (Leaf l)"
proof (induction as arbitrary: xs)
  case Nil
  then show ?case by simp
next
  case (Cons a as)
  from Cons.prems obtain x ys where x: "view_leaf p h a = Some x" "view_leaves p h as = Some ys"
    by (auto split: option.splits)
  from x(1) have "\<exists>l. lookup h a = Some (Leaf l)"
    by (auto simp: view_leaf_def split: option.splits obj.splits)
  with Cons.IH [OF x(2)] show ?case
    by simp
qed

lemma view_list_wf: "view_list p h a = Some xs \<Longrightarrow> wf_list h a"
  by (auto simp: view_list_def wf_list_def split: option.splits obj.splits dest: view_leaves_wf)

lemma view_conference_wf: "view_conference h a = Some c \<Longrightarrow> wf_conference h a"
  unfolding view_conference_def wf_conference_def
  by (auto split: option.splits obj.splits dest: view_list_wf)

lemma view_context_wf:
  assumes "view_context h a = Some v"
  shows "wf_context h a"
proof -
  from assms obtain u cd rs ms es st ca vb where
    l: "lookup h a = Some (ContextObj u cd rs ms es st ca vb)"
    by (auto simp: view_context_def split: option.splits obj.splits)
  with assms obtain c results msgs errs where
    parts: "view_conference_opt h cd = Some c" "view_list the_result h rs = Some results"
      "view_list the_message h ms = Some msgs" "view_leaf the_strings h es = Some errs"
    by (auto simp: view_context_def split: option.splits)
  from parts(1) have "\<forall>c0. cd = Some c0 \<longrightarrow> wf_conference h c0"
    by (auto simp: view_conference_opt_def dest: view_conference_wf)
  moreover from parts(4) have "\<exists>l. lookup h es = Some (Leaf l)"
    by (auto simp: view_leaf_def split: option.splits obj.splits)
  ultimately show ?thesis
    unfolding wf_context_def
    using l view_list_wf [OF parts(2)] view_list_wf [OF parts(3)] by blast
qed

subsection \<open>The objects of a well-formed context exist\<close>

lemma wf_list_bound: "wf_list h a \<Longrightarrow> reach_list h a \<subseteq> {..<length h}"
  by (fastforce simp: wf_list_def reach_list_def dest: lookup_Some_less)

lemma wf_conference_bound:
  assumes "wf_conference h a"
  shows "reach_conference h a \<subseteq> {..<length h}"
proof -
  from assms obtain u n d l sp at co t where
    l: "lookup h a = Some (ConferenceObj u n d l sp at co t)"
    and w: "wf_list h sp" "wf_list h at" "wf_list h co"
    unfolding wf_conference_def by blast
  from l have "a < length h"
    by (rule lookup_Some_less)
  with wf_list_bound [OF w(1)] wf_list_bound [OF w(2)] wf_list_bound [OF w(3)] show ?thesis
    by (auto simp: reach_conference_unfold [OF l])
qed

lemma wf_context_bound:
  assumes "wf_context h a"
  shows "reach_context h a \<subseteq> {..<length h}"
proof -
  from assms obtain u cd rs ms es st ca v l0 where
    l: "lookup h a = Some (ContextObj u cd rs ms es st ca v)"
    and w: "\<forall>c. cd = Some c \<longrightarrow> wf_conference h c" "wf_list h rs" "wf_list h ms"
      "lookup h es = Some (Leaf l0)"
    unfolding wf_context_def by blast
  from l have a: "a < length h"
    by (rule lookup_Some_less)
  from w(4) have e: "es < length h"
    by (rule lookup_Some_less)
  have conf: "(case cd of None \<Rightarrow> {} | Some c \<Rightarrow> reach_conference h c) \<subseteq> {..<length h}"
  proof (cases cd)
    case None
    then show ?thesis by simp
  next
    case (Some c)
    with w(1) have "wf_conference h c" by simp
    from wf_conference_bound [OF this] Some show ?thesis by simp
  qed
  from a e conf wf_list_bound [OF w(2)] wf_list_bound [OF w(3)] show ?thesis
    by (auto simp: reach_context_unfold [OF l])
qed

subsection \<open>Writing other objects leaves a context as it is\<close>

lemma context_frame:
  assumes v: "view_context h c = Some v"
    and len: "length h \<le> length h'"
    and same: "\<forall>x<length h. x \<notin> R \<longrightarrow> h' ! x = h ! x"
    and apart: "reach_context h c \<inter> R = {}"
  shows "view_context h' c = Some v \<and> reach_context h' c = reach_context h c"
proof -
  from wf_context_bound [OF view_context_wf [OF v]]
  have bound: "reach_context h c \<subseteq> {..<length h}" .
  have agree: "\<forall>x\<in>reach_context h c. lookup h' x = lookup h x"
  proof
    fix x
    assume x: "x \<in> reach_context h c"
    with bound have "x < length h" by auto
    moreover from x apart have "x \<notin> R" by auto
    ultimately show "lookup h' x = lookup h x"
      using same len by (simp add: lookup_def)
  qed
  from view_context_agree [OF agree] reach_context_agree [OF agree] v show ?thesis
    by simp
qed

lemma context_frame_append:
  assumes v: "view_context h c = Some v"
  shows "view_context (h @ e) c = Some v \<and> reach_context (h @ e) c = reach_context h c"
proof -
  have "\<forall>x<length h. x \<notin> {} \<longrightarrow> (h @ e) ! x = h ! x"
    by (simp add: nth_append)
  from context_frame [OF v _ this] show ?thesis
    by simp
qed

lemma deepcopy_view:
  assumes v: "view_context h a = Some v"
  shows "\<exists>b e. deepcopy h a = Some (b, h @ e)
           \<and> view_context (h @ e) b = Some v
           \<and> reach_context (h @ e) b \<subseteq> {length h..<length (h @ e)}
           \<and> view_context (h @ e) a = Some v
           \<and> reach_context (h @ e) a = reach_context h a
           \<and> reach_context h a \<subseteq> {..<length h}"
proof -
  from deepcopy_correct [OF view_context_wf [OF v]]
  obtain b e where d: "deepcopy h a = Some (b, h @ e)" "copied_context h (h @ e) a b"
    by blast
  from copied_context_view [OF d(2)] v have "view_context (h @ e) b = Some v"
    by simp
  with d copied_context_new [OF d(2)] context_frame_append [OF v, of e]
    wf_context_bound [OF view_context_wf [OF v]]
  show ?thesis
    by blast
qed

lemma new_apart_from_old:
  fixes A B :: "nat set"
  assumes "A \<subseteq> {n..<m}" and "B \<subseteq> {..<n}"
  shows "A \<inter> B = {}"
proof (rule ccontr)
  assume "A \<inter> B \<noteq> {}"
  then obtain x where "x \<in> A" "x \<in> B"
    by blast
  with assms have "n \<le> x" "x < n"
    by auto
  then show False
    by simp
qed

lemma restore_after_mutation:
  assumes vb: "view_context h2 b = Some v"
    and sv: "saved s2 name = Some b" and st: "store s2 = h2"
  shows "\<exists>s3. restore_checkpoint_s s2 name = Some (True, s3)
      \<and> saved s3 = saved s2
      \<and> length h2 \<le> length (store s3)
      \<and> view_context (store s3) (live s3) = Some v
      \<and> reach_context (store s3) (live s3) \<inter> {..<length h2} = {}
      \<and> view_context (store s3) b = Some v
      \<and> reach_context (store s3) b \<subseteq> {..<length h2}
      \<and> (\<forall>a w. view_context h2 a = Some w \<longrightarrow>
            view_context (store s3) a = Some w \<and> reach_context (store s3) a \<subseteq> {..<length h2})"
proof -
  from deepcopy_view [OF vb]
  obtain b' e where d: "deepcopy h2 b = Some (b', h2 @ e)"
      "view_context (h2 @ e) b' = Some v"
      "reach_context (h2 @ e) b' \<subseteq> {length h2..<length (h2 @ e)}"
      "view_context (h2 @ e) b = Some v"
      "reach_context (h2 @ e) b = reach_context h2 b"
      "reach_context h2 b \<subseteq> {..<length h2}"
    by blast
  define s3 where "s3 = s2\<lparr> store := h2 @ e, live := b' \<rparr>"
  have r: "restore_checkpoint_s s2 name = Some (True, s3)"
    by (simp add: restore_checkpoint_s_def sv st d(1) s3_def)
  have fresh: "reach_context (store s3) (live s3) \<inter> {..<length h2} = {}"
    using d(3) by (auto simp: s3_def)
  have others: "\<forall>a w. view_context h2 a = Some w \<longrightarrow>
            view_context (store s3) a = Some w \<and> reach_context (store s3) a \<subseteq> {..<length h2}"
  proof (intro allI impI)
    fix a w
    assume w: "view_context h2 a = Some w"
    from context_frame_append [OF w, of e] wf_context_bound [OF view_context_wf [OF w]]
    show "view_context (store s3) a = Some w \<and> reach_context (store s3) a \<subseteq> {..<length h2}"
      by (simp add: s3_def)
  qed
  from r fresh others d(2,4,5,6) show ?thesis
    by (intro exI [of _ s3]) (simp add: s3_def)
qed

lemma mutation_frame:
  assumes v: "view_context (store s) c = Some v"
    and len: "length (store s) \<le> length (store s')"
    and same: "\<forall>x<length (store s). x \<notin> R \<longrightarrow> store s' ! x = store s ! x"
    and apart: "reach_context (store s) c \<inter> R = {}"
  shows "view_context (store s') c = Some v"
  using context_frame [OF v len same apart] by simp

text \<open>
  Claim C7. Whatever the name, in a state whose live context is well-formed (can be read,
  with value \<open>v\<close>): \<^verbatim>\<open>create_checkpoint\<close> succeeds, and after any mutation of the live state
  (for example appending a result), \<^verbatim>\<open>restore_checkpoint\<close> of that name succeeds and yields
  a live context whose value is again \<open>v\<close>, the value at checkpoint time. Every object of
  the restored context is allocated by the restore: none existed before, so the restored
  context shares no object with the stored checkpoint nor with the mutated context it
  replaces. The checkpoint itself still has the value \<open>v\<close>. Later writes stay apart: a
  mutation of the restored context changes neither the checkpoint nor the replaced
  context, and writing any object that existed before the restore (those of the
  checkpoint and of the replaced context among them) does not change the restored
  context.
\<close>

theorem checkpoint_restore_independent:
  assumes v: "view_context (store self) (live self) = Some v"
  shows "(\<exists>s1. create_checkpoint_s self name = Some s1)
      \<and> (\<forall>s1 s2. create_checkpoint_s self name = Some s1 \<and> mutation_of_live s1 s2 \<longrightarrow>
           (\<exists>c s3. saved s1 name = Some c
                \<and> view_context (store s1) c = Some v
                \<and> view_context (store s2) c = Some v
                \<and> restore_checkpoint_s s2 name = Some (True, s3)
                \<and> view_context (store s3) (live s3) = Some v
                \<and> view_context (store s3) c = Some v
                \<and> reach_context (store s3) (live s3) \<inter> {..<length (store s2)} = {}
                \<and> reach_context (store s3) (live s3) \<inter> reach_context (store s3) c = {}
                \<and> (\<forall>w. view_context (store s2) (live s2) = Some w \<longrightarrow>
                      view_context (store s3) (live s2) = Some w
                      \<and> reach_context (store s3) (live s3)
                          \<inter> reach_context (store s3) (live s2) = {})
                \<and> (\<forall>s4. mutation_of_live s3 s4 \<longrightarrow>
                      view_context (store s4) c = Some v
                      \<and> (\<forall>w. view_context (store s2) (live s2) = Some w \<longrightarrow>
                            view_context (store s4) (live s2) = Some w))
                \<and> (\<forall>s4. writes_only {..<length (store s2)} s3 s4 \<longrightarrow>
                      view_context (store s4) (live s3) = Some v)))"
proof -
  let ?h = "store self"
  let ?a = "live self"
  from deepcopy_view [OF v]
  obtain b e where d: "deepcopy ?h ?a = Some (b, ?h @ e)"
      "view_context (?h @ e) b = Some v"
      "reach_context (?h @ e) b \<subseteq> {length ?h..<length (?h @ e)}"
      "view_context (?h @ e) ?a = Some v"
      "reach_context (?h @ e) ?a = reach_context ?h ?a"
      "reach_context ?h ?a \<subseteq> {..<length ?h}"
    by blast
  define h1 where "h1 = ?h @ e"
  define s1 where "s1 = self\<lparr> store := h1, saved := (saved self)(name \<mapsto> b) \<rparr>"
  have c1: "create_checkpoint_s self name = Some s1"
    by (simp add: create_checkpoint_s_def d(1) s1_def h1_def)
  have f1: "saved s1 name = Some b" "live s1 = ?a" "store s1 = h1"
    by (simp_all add: s1_def)
  have v1: "view_context h1 ?a = Some v" "view_context h1 b = Some v"
    using d(2,4) by (simp_all add: h1_def)
  have apart1: "reach_context h1 b \<inter> reach_context h1 ?a = {}"
    unfolding h1_def d(5) by (rule new_apart_from_old [OF d(3) d(6)])
  have after: "\<exists>s3. view_context (store s2) b = Some v
                \<and> restore_checkpoint_s s2 name = Some (True, s3)
                \<and> view_context (store s3) (live s3) = Some v
                \<and> view_context (store s3) b = Some v
                \<and> reach_context (store s3) (live s3) \<inter> {..<length (store s2)} = {}
                \<and> reach_context (store s3) (live s3) \<inter> reach_context (store s3) b = {}
                \<and> (\<forall>w. view_context (store s2) (live s2) = Some w \<longrightarrow>
                      view_context (store s3) (live s2) = Some w
                      \<and> reach_context (store s3) (live s3)
                          \<inter> reach_context (store s3) (live s2) = {})
                \<and> (\<forall>s4. mutation_of_live s3 s4 \<longrightarrow>
                      view_context (store s4) b = Some v
                      \<and> (\<forall>w. view_context (store s2) (live s2) = Some w \<longrightarrow>
                            view_context (store s4) (live s2) = Some w))
                \<and> (\<forall>s4. writes_only {..<length (store s2)} s3 s4 \<longrightarrow>
                      view_context (store s4) (live s3) = Some v)"
    if mut: "mutation_of_live s1 s2" for s2
  proof -
    from mut have m: "live s2 = ?a" "saved s2 = saved s1" "length h1 \<le> length (store s2)"
        "\<forall>x<length h1. x \<notin> reach_context h1 ?a \<longrightarrow> store s2 ! x = h1 ! x"
      by (simp_all add: mutation_of_live_def writes_only_def f1)
    have v2: "view_context (store s2) b = Some v"
      using context_frame [OF v1(2) m(3) m(4) apart1] by simp
    from m(2) f1(1) have sv2: "saved s2 name = Some b"
      by simp
    from restore_after_mutation [OF v2 sv2 refl]
    obtain s3 where r: "restore_checkpoint_s s2 name = Some (True, s3)"
        "saved s3 = saved s2"
        "length (store s2) \<le> length (store s3)"
        "view_context (store s3) (live s3) = Some v"
        "reach_context (store s3) (live s3) \<inter> {..<length (store s2)} = {}"
        "view_context (store s3) b = Some v"
        "reach_context (store s3) b \<subseteq> {..<length (store s2)}"
        "\<forall>a w. view_context (store s2) a = Some w \<longrightarrow>
            view_context (store s3) a = Some w
            \<and> reach_context (store s3) a \<subseteq> {..<length (store s2)}"
      by blast
    have apart3: "reach_context (store s3) (live s3) \<inter> reach_context (store s3) b = {}"
      using r(5,7) by blast
    have old: "\<forall>w. view_context (store s2) (live s2) = Some w \<longrightarrow>
                      view_context (store s3) (live s2) = Some w
                      \<and> reach_context (store s3) (live s3)
                          \<inter> reach_context (store s3) (live s2) = {}"
      using r(5,8) by blast
    have later_live: "view_context (store s4) b = Some v
                      \<and> (\<forall>w. view_context (store s2) (live s2) = Some w \<longrightarrow>
                            view_context (store s4) (live s2) = Some w)"
      if m4: "mutation_of_live s3 s4" for s4
    proof -
      from m4 have k: "length (store s3) \<le> length (store s4)"
          "\<forall>x<length (store s3). x \<notin> reach_context (store s3) (live s3)
              \<longrightarrow> store s4 ! x = store s3 ! x"
        by (simp_all add: mutation_of_live_def writes_only_def)
      have a1: "reach_context (store s3) b \<inter> reach_context (store s3) (live s3) = {}"
        using apart3 by blast
      have p1: "view_context (store s4) b = Some v"
        by (rule mutation_frame [OF r(6) k(1) k(2) a1])
      have p2: "view_context (store s4) (live s2) = Some w"
        if w: "view_context (store s2) (live s2) = Some w" for w
      proof -
        from old w have o: "view_context (store s3) (live s2) = Some w"
            "reach_context (store s3) (live s2) \<inter> reach_context (store s3) (live s3) = {}"
          by blast+
        show ?thesis
          by (rule mutation_frame [OF o(1) k(1) k(2) o(2)])
      qed
      from p1 p2 show ?thesis
        by blast
    qed
    have later_old: "view_context (store s4) (live s3) = Some v"
      if m4: "writes_only {..<length (store s2)} s3 s4" for s4
    proof -
      from m4 have k: "length (store s3) \<le> length (store s4)"
          "\<forall>x<length (store s3). x \<notin> {..<length (store s2)}
              \<longrightarrow> store s4 ! x = store s3 ! x"
        by (simp_all add: writes_only_def)
      show ?thesis
        by (rule mutation_frame [OF r(4) k(1) k(2) r(5)])
    qed
    from later_live have ll: "\<forall>s4. mutation_of_live s3 s4 \<longrightarrow>
                      view_context (store s4) b = Some v
                      \<and> (\<forall>w. view_context (store s2) (live s2) = Some w \<longrightarrow>
                            view_context (store s4) (live s2) = Some w)"
      by blast
    from later_old have ls: "\<forall>s4. writes_only {..<length (store s2)} s3 s4 \<longrightarrow>
                      view_context (store s4) (live s3) = Some v"
      by blast
    show ?thesis
      by (intro exI [of _ s3] conjI v2 r(1) r(4) r(6) r(5) apart3 old ll ls)
  qed
  show ?thesis
  proof (intro conjI allI impI)
    from c1 show "\<exists>s1. create_checkpoint_s self name = Some s1"
      by blast
  next
    fix t1 s2
    assume h: "create_checkpoint_s self name = Some t1 \<and> mutation_of_live t1 s2"
    with c1 have eq: "t1 = s1" and mut: "mutation_of_live s1 s2"
      by simp_all
    from after [OF mut] obtain s3 where a:
        "view_context (store s2) b = Some v"
        "restore_checkpoint_s s2 name = Some (True, s3)"
        "view_context (store s3) (live s3) = Some v"
        "view_context (store s3) b = Some v"
        "reach_context (store s3) (live s3) \<inter> {..<length (store s2)} = {}"
        "reach_context (store s3) (live s3) \<inter> reach_context (store s3) b = {}"
        "\<forall>w. view_context (store s2) (live s2) = Some w \<longrightarrow>
                      view_context (store s3) (live s2) = Some w
                      \<and> reach_context (store s3) (live s3)
                          \<inter> reach_context (store s3) (live s2) = {}"
        "\<forall>s4. mutation_of_live s3 s4 \<longrightarrow>
                      view_context (store s4) b = Some v
                      \<and> (\<forall>w. view_context (store s2) (live s2) = Some w \<longrightarrow>
                            view_context (store s4) (live s2) = Some w)"
        "\<forall>s4. writes_only {..<length (store s2)} s3 s4 \<longrightarrow>
                      view_context (store s4) (live s3) = Some v"
      by (elim exE conjE) (rule that)
    have s1b: "saved t1 name = Some b" "view_context (store t1) b = Some v"
      using f1 v1 eq by simp_all
    show "\<exists>c s3. saved t1 name = Some c
                \<and> view_context (store t1) c = Some v
                \<and> view_context (store s2) c = Some v
                \<and> restore_checkpoint_s s2 name = Some (True, s3)
                \<and> view_context (store s3) (live s3) = Some v
                \<and> view_context (store s3) c = Some v
                \<and> reach_context (store s3) (live s3) \<inter> {..<length (store s2)} = {}
                \<and> reach_context (store s3) (live s3) \<inter> reach_context (store s3) c = {}
                \<and> (\<forall>w. view_context (store s2) (live s2) = Some w \<longrightarrow>
                      view_context (store s3) (live s2) = Some w
                      \<and> reach_context (store s3) (live s3)
                          \<inter> reach_context (store s3) (live s2) = {})
                \<and> (\<forall>s4. mutation_of_live s3 s4 \<longrightarrow>
                      view_context (store s4) c = Some v
                      \<and> (\<forall>w. view_context (store s2) (live s2) = Some w \<longrightarrow>
                            view_context (store s4) (live s2) = Some w))
                \<and> (\<forall>s4. writes_only {..<length (store s2)} s3 s4 \<longrightarrow>
                      view_context (store s4) (live s3) = Some v)"
      by (intro exI [of _ b] exI [of _ s3] conjI s1b a)
  qed
qed

lemma add_icp_result_s_writes:
  assumes add: "add_icp_result_s s ra = Some s'"
  shows "live s' = live s \<and> saved s' = saved s \<and> length (store s') = length (store s)
       \<and> (\<forall>x<length (store s). x \<notin> reach_context (store s) (live s)
             \<longrightarrow> store s' ! x = store s ! x)"
proof -
  let ?h = "store s"
  from add obtain u cd rs ms es st ca v where
    l: "lookup ?h (live s) = Some (ContextObj u cd rs ms es st ca v)"
    by (auto simp: add_icp_result_s_def Let_def split: option.splits obj.splits)
  from add l obtain new where s': "s' = s\<lparr> store := ?h[rs := new] \<rparr>"
    by (auto simp: add_icp_result_s_def Let_def split: option.splits obj.splits)
  have "rs \<in> reach_context ?h (live s)"
    by (simp add: reach_context_unfold [OF l] reach_list_self)
  then have "\<forall>x<length ?h. x \<notin> reach_context ?h (live s) \<longrightarrow> ?h[rs := new] ! x = ?h ! x"
    by (metis nth_list_update_neq)
  then show ?thesis
    by (simp add: s')
qed

lemma add_new_result_mutation:
  assumes v: "view_context (store s) (live s) = Some v"
    and add: "add_icp_result_s (snd (new_result s r)) (fst (new_result s r)) = Some s'"
  shows "mutation_of_live s s'"
proof -
  let ?s1 = "snd (new_result s r)"
  have n: "store ?s1 = store s @ [Leaf (ResultL r)]" "live ?s1 = live s" "saved ?s1 = saved s"
    by (simp_all add: new_result_def)
  from add_icp_result_s_writes [OF add]
  have w: "live s' = live s" "saved s' = saved s" "length (store s') = length (store s) + 1"
      "\<forall>x<length (store ?s1). x \<notin> reach_context (store ?s1) (live ?s1)
             \<longrightarrow> store s' ! x = store ?s1 ! x"
    by (simp_all add: n)
  from context_frame_append [OF v, of "[Leaf (ResultL r)]"]
  have same_reach: "reach_context (store ?s1) (live ?s1) = reach_context (store s) (live s)"
    by (simp add: n)
  have "\<forall>x<length (store s). x \<notin> reach_context (store s) (live s)
          \<longrightarrow> store s' ! x = store s ! x"
  proof (intro allI impI)
    fix x
    assume x: "x < length (store s)" "x \<notin> reach_context (store s) (live s)"
    with w(4) same_reach have "store s' ! x = store ?s1 ! x"
      by (simp add: n)
    with x(1) show "store s' ! x = store s ! x"
      by (simp add: n nth_append)
  qed
  with w show ?thesis
    by (simp add: mutation_of_live_def writes_only_def)
qed

lemma init_view:
  "view_context (store (shared_state_init ''https://example.org'' False))
     (live (shared_state_init ''https://example.org'' False))
   = Some (agent_context (SharedContext_init ''https://example.org'' False 0))"
  by (simp add: shared_state_init_def SharedContext_init_def view_context_def lookup_def
        view_conference_opt_def view_list_def view_leaf_def)

lemma init_checkpoint:
  "create_checkpoint_s (shared_state_init ''https://example.org'' False) ''pre-validate''
   = Some \<lparr> store = [Leaf (StringsL []), RefList [], RefList [],
                      ContextObj ''https://example.org'' None 2 1 0 ''initialized'' [] False,
                      RefList [], RefList [], Leaf (StringsL []),
                      ContextObj ''https://example.org'' None 4 5 6 ''initialized'' [] False],
            live = 3, saved = [''pre-validate'' \<mapsto> 7] \<rparr>"
  by (simp add: create_checkpoint_s_def shared_state_init_def deepcopy_def copy_context_def
        copy_conference_opt_def copy_list_def copy_leaf_def lookup_def eval_nat_numeral)

lemma validated_add:
  "add_icp_result_s (snd (new_result checkpointed (scored 40 ''Low'')))
     (fst (new_result checkpointed (scored 40 ''Low''))) = Some validated"
  by (simp add: add_icp_result_s_def new_result_def checkpointed_def validated_def Let_def
        lookup_def result_at_def view_leaf_def eval_nat_numeral)

lemma validated_view:
  "map_option icp_results (view_context (store validated) (live validated))
     = Some [scored 40 ''Low'']"
  by (simp add: validated_def view_context_def lookup_def view_conference_opt_def
        view_list_def view_leaf_def eval_nat_numeral)

theorem checkpoint_restore_independent_witness:
  "\<exists>s3. create_checkpoint_s (shared_state_init ''https://example.org'' False) ''pre-validate''
          = Some checkpointed
      \<and> add_icp_result_s (snd (new_result checkpointed (scored 40 ''Low'')))
            (fst (new_result checkpointed (scored 40 ''Low''))) = Some validated
      \<and> map_option icp_results (view_context (store validated) (live validated))
            = Some [scored 40 ''Low'']
      \<and> restore_checkpoint_s validated ''pre-validate'' = Some (True, s3)
      \<and> map_option icp_results (view_context (store s3) (live s3)) = Some []
      \<and> reach_context (store s3) (live s3) \<inter> reach_context (store s3) (live validated) = {}
      \<and> reach_context (store s3) (live s3) \<inter> reach_context (store s3) 7 = {}"
proof -
  let ?init = "shared_state_init ''https://example.org'' False"
  let ?v = "agent_context (SharedContext_init ''https://example.org'' False 0)"
  have cp: "create_checkpoint_s ?init ''pre-validate'' = Some checkpointed"
    using init_checkpoint by (simp add: checkpointed_def)
  have lv: "view_context (store checkpointed) (live checkpointed) = Some ?v"
    by (simp add: checkpointed_def SharedContext_init_def view_context_def lookup_def
          view_conference_opt_def view_list_def view_leaf_def eval_nat_numeral)
  have m: "mutation_of_live checkpointed validated"
    by (rule add_new_result_mutation [OF lv validated_add])
  from validated_view obtain w where w: "view_context (store validated) (live validated) = Some w"
    by auto
  note T = checkpoint_restore_independent [OF init_view, of "''pre-validate''",
      THEN conjunct2, THEN spec, THEN spec, THEN mp, OF conjI [OF cp m]]
  from T obtain c s3 where r:
      "saved checkpointed ''pre-validate'' = Some c"
      "restore_checkpoint_s validated ''pre-validate'' = Some (True, s3)"
      "view_context (store s3) (live s3) = Some ?v"
      "reach_context (store s3) (live s3) \<inter> reach_context (store s3) c = {}"
      "\<forall>w. view_context (store validated) (live validated) = Some w \<longrightarrow>
            view_context (store s3) (live validated) = Some w
            \<and> reach_context (store s3) (live s3)
                \<inter> reach_context (store s3) (live validated) = {}"
    by (elim exE conjE) (rule that)
  from r(1) have c: "c = 7"
    by (simp add: checkpointed_def)
  from r(5) w have apart: "reach_context (store s3) (live s3)
                \<inter> reach_context (store s3) (live validated) = {}"
    by blast
  from r(3) have none: "map_option icp_results (view_context (store s3) (live s3)) = Some []"
    by (simp add: SharedContext_init_def)
  from r(4) c have apart7: "reach_context (store s3) (live s3) \<inter> reach_context (store s3) 7 = {}"
    by simp
  show ?thesis
    by (intro exI [of _ s3] conjI cp validated_add validated_view r(2) none apart apart7)
qed

text \<open>Over the store as by value, an unknown name restores nothing.\<close>

lemma restore_checkpoint_s_unknown:
  "saved self name = None \<Longrightarrow> restore_checkpoint_s self name = Some (False, self)"
  by (simp add: restore_checkpoint_s_def)

end
